theory Spec2Isabelle
  imports Complex_Main
begin

section \<open>JavaScript numbers\<close>

text \<open>
  The engine computes on JavaScript numbers. A number is modelled as a real, or as
  \<open>NaN\<close>: the two infinities are left out, and so is the rounding of IEEE doubles
  except where it changes a result by more than a rounding error, in \<open>Math.tanh\<close>.
  Every other operation below is the exact one on reals; all propagate \<open>NaN\<close> as
  JavaScript does.
  Reading a typed array out of range gives \<open>undefined\<close>, which every arithmetic
  operator of the engine turns into \<open>NaN\<close>; the model writes \<open>NaN\<close> for it.
\<close>

datatype jsnum = NaN | Num real

fun js_mul :: "jsnum \<Rightarrow> jsnum \<Rightarrow> jsnum" where
  "js_mul (Num a) (Num b) = Num (a * b)"
| "js_mul _ _ = NaN"

fun js_add :: "jsnum \<Rightarrow> jsnum \<Rightarrow> jsnum" where
  "js_add (Num a) (Num b) = Num (a + b)"
| "js_add _ _ = NaN"

text \<open>\<open>a > b\<close> is false as soon as one side is \<open>NaN\<close>.\<close>

fun js_gt :: "jsnum \<Rightarrow> jsnum \<Rightarrow> bool" where
  "js_gt (Num a) (Num b) = (b < a)"
| "js_gt _ _ = False"

text \<open>\<open>a % b\<close>: the remainder of the division truncated towards zero.\<close>

definition trunc :: "real \<Rightarrow> int" where
  "trunc x = (if 0 \<le> x then \<lfloor>x\<rfloor> else \<lceil>x\<rceil>)"

fun js_rem :: "jsnum \<Rightarrow> jsnum \<Rightarrow> jsnum" where
  "js_rem (Num a) (Num b) = (if b = 0 then NaN else Num (a - b * of_int (trunc (a / b))))"
| "js_rem _ _ = NaN"

text \<open>
  \<open>Math.tanh\<close> returns the double nearest to the hyperbolic tangent. Below 1 the
  doubles are \<open>2\<^sup>-\<^sup>5\<^sup>3\<close> apart, so a value within \<open>2\<^sup>-\<^sup>5\<^sup>4\<close> of 1 comes back as exactly 1
  (from an argument of about 19.06 on), and likewise at \<open>-1\<close>: the function reaches
  its bounds, which the real one never does.
\<close>

definition tanh_double :: "real \<Rightarrow> real" where
  "tanh_double x =
     (if 1 - 1 / 2 ^ 54 \<le> tanh x then 1
      else if tanh x \<le> - (1 - 1 / 2 ^ 54) then - 1
      else tanh x)"

fun Math_tanh :: "jsnum \<Rightarrow> jsnum" where
  "Math_tanh (Num a) = Num (tanh_double a)"
| "Math_tanh NaN = NaN"

fun Math_floor :: "jsnum \<Rightarrow> jsnum" where
  "Math_floor (Num a) = Num (of_int \<lfloor>a\<rfloor>)"
| "Math_floor NaN = NaN"

fun Math_abs :: "jsnum \<Rightarrow> jsnum" where
  "Math_abs (Num a) = Num \<bar>a\<bar>"
| "Math_abs NaN = NaN"

fun Math_sqrt :: "jsnum \<Rightarrow> jsnum" where
  "Math_sqrt (Num a) = (if a < 0 then NaN else Num (sqrt a))"
| "Math_sqrt NaN = NaN"

fun Math_min :: "jsnum \<Rightarrow> jsnum \<Rightarrow> jsnum" where
  "Math_min (Num a) (Num b) = Num (min a b)"
| "Math_min _ _ = NaN"

fun Math_max :: "jsnum \<Rightarrow> jsnum \<Rightarrow> jsnum" where
  "Math_max (Num a) (Num b) = Num (max a b)"
| "Math_max _ _ = NaN"

text \<open>
  A \<open>Float32Array\<close> is a list of numbers. \<open>slice(a, b)\<close> with \<open>0 \<le> a \<le> b\<close> keeps
  the elements at \<open>a, ..., b - 1\<close> that exist. \<open>xs[i % xs.length]\<close> is \<open>undefined\<close>
  on an empty array (\<open>i % 0\<close> is \<open>NaN\<close>).
\<close>

type_synonym Float32Array = "jsnum list"

definition slice :: "Float32Array \<Rightarrow> nat \<Rightarrow> nat \<Rightarrow> Float32Array" where
  "slice xs a b = take (b - a) (drop a xs)"

definition at_mod :: "Float32Array \<Rightarrow> nat \<Rightarrow> jsnum" where
  "at_mod xs i = (if length xs = 0 then NaN else xs ! (i mod length xs))"

section \<open>Melody generation\<close>

definition scale :: "string list" where
  "scale = [''C'', ''D'', ''Eb'', ''F'', ''G'', ''Ab'', ''Bb'']"

record NoteEvent =
  noteIndex :: jsnum
  octaveShift :: jsnum
  gate :: bool
  velocity :: jsnum

text \<open>The body of the loop of \<open>getVoiceMelody\<close> in \<open>src/services/musicEngine.ts\<close>.\<close>

definition note_svc :: "Float32Array \<Rightarrow> nat \<Rightarrow> nat \<Rightarrow> NoteEvent" where
  "note_svc vectorSlice voiceIdx i =
     (let val = at_mod vectorSlice i;
          amplified = Math_tanh (js_mul val (Num 15));
          pitchIndex = js_rem (Math_abs (Math_floor (js_mul amplified (Num 14))))
                              (Num (real (length scale)));
          octShift = Math_floor (js_mul amplified (Num 2))
      in \<lparr> noteIndex = pitchIndex,
           octaveShift = octShift,
           gate = js_gt (Math_abs (js_mul val (Num 25)))
                        (js_add (Num 0.4) (js_mul (Num (real voiceIdx)) (Num 0.1))),
           velocity = Math_min (Num 1) (Math_max (Num 0.25) (js_add (Num 0.5) (js_mul val (Num 5)))) \<rparr>)"

function loop_svc :: "Float32Array \<Rightarrow> nat \<Rightarrow> nat \<Rightarrow> nat \<Rightarrow> NoteEvent list \<Rightarrow> NoteEvent list" where
  "loop_svc vectorSlice voiceIdx stepCount i melody =
     (if i < stepCount
      then loop_svc vectorSlice voiceIdx stepCount (i + 1) (melody @ [note_svc vectorSlice voiceIdx i])
      else melody)"
  by pat_completeness auto
termination
  by (relation "measure (\<lambda>(vectorSlice, voiceIdx, stepCount, i, melody). stepCount - i)") auto

declare loop_svc.simps [simp del]

definition getVoiceMelody_svc :: "Float32Array \<Rightarrow> nat \<Rightarrow> nat \<Rightarrow> NoteEvent list" where
  "getVoiceMelody_svc vectorSlice voiceIdx stepCount = loop_svc vectorSlice voiceIdx stepCount 0 []"

text \<open>The same function in \<open>src/musicEngine.ts\<close>.\<close>

definition note_root :: "Float32Array \<Rightarrow> nat \<Rightarrow> nat \<Rightarrow> NoteEvent" where
  "note_root vectorSlice voiceIdx i =
     (let val = at_mod vectorSlice i;
          amplified = Math_tanh (js_mul val (Num 15))
      in \<lparr> noteIndex = js_rem (Math_abs (Math_floor (js_mul amplified (Num 14))))
                             (Num (real (length scale))),
           octaveShift = Math_floor (js_mul amplified (Num 2)),
           gate = js_gt (Math_abs (js_mul val (Num 25)))
                        (js_add (Num 0.5) (js_mul (Num (real voiceIdx)) (Num 0.1))),
           velocity = Math_min (Num 1) (Math_max (Num 0.25) (js_add (Num 0.5) (js_mul val (Num 5)))) \<rparr>)"

function loop_root :: "Float32Array \<Rightarrow> nat \<Rightarrow> nat \<Rightarrow> nat \<Rightarrow> NoteEvent list \<Rightarrow> NoteEvent list" where
  "loop_root vectorSlice voiceIdx stepCount i melody =
     (if i < stepCount
      then loop_root vectorSlice voiceIdx stepCount (i + 1) (melody @ [note_root vectorSlice voiceIdx i])
      else melody)"
  by pat_completeness auto
termination
  by (relation "measure (\<lambda>(vectorSlice, voiceIdx, stepCount, i, melody). stepCount - i)") auto

declare loop_root.simps [simp del]

definition getVoiceMelody_root :: "Float32Array \<Rightarrow> nat \<Rightarrow> nat \<Rightarrow> NoteEvent list" where
  "getVoiceMelody_root vectorSlice voiceIdx stepCount = loop_root vectorSlice voiceIdx stepCount 0 []"

section \<open>Engine state\<close>

text \<open>
  The four voices are the keys \<open>'bass'\<close>, \<open>'tenor'\<close>, \<open>'alto'\<close>, \<open>'soprano'\<close> of
  \<open>VOICE_CONFIGS\<close>, of \<open>loadedStates\<close> and of the two instrument maps.
\<close>

datatype voice = Bass | Tenor | Alto | Soprano

datatype CompositionPhase = Start | Traversal | End | Idle

text \<open>The note values \<open>"2n"\<close>, \<open>"4n"\<close>, \<open>"8n"\<close>, \<open>"16n"\<close> handed to the instruments.\<close>

datatype duration = D2n | D4n | D8n | D16n

text \<open>
  The instruments belong to the audio library. What the engine does to one is the
  sequence of calls it makes on it: \<open>releaseAll(time)\<close> (\<open>releaseAll()\<close> has no time)
  and \<open>triggerAttackRelease(note, duration, time, velocity)\<close>. The note is the value
  of \<open>scale[k] + octave\<close>: the name followed by the number, a string kept here as its
  two parts, when \<open>scale[k]\<close> is a name; the number \<open>NaN\<close> when \<open>scale[k]\<close> is
  \<open>undefined\<close>. Time is counted in sixteenth notes, the interval of the loop.
\<close>

datatype note_value = Pitch string jsnum | NotANumber

datatype call =
    ReleaseAll "nat option"
  | TriggerAttackRelease note_value duration nat jsnum

record sampler =
  loaded :: bool
  calls :: "call list"

text \<open>
  The fields of \<open>MusicEngine\<close>, then the part of the world it acts on: the transport
  of the audio library (started or not, its tempo) and the calls the phase observers
  have received. \<open>loop\<close> holds the step counter that the callback of the loop closes
  over. An observer is known by a number.
\<close>

record MusicEngine =
  samplers :: "voice \<rightharpoonup> sampler"
  fallbacks :: "voice \<rightharpoonup> call list"
  loop :: "nat option"
  loadedStates :: "voice \<Rightarrow> bool"
  isInitialized :: bool
  currentMelodies :: "NoteEvent list list"
  currentPhase :: CompositionPhase
  onPhaseChange :: "nat option"
  transport_started :: bool
  transport_bpm :: jsnum
  notified :: "(nat \<times> CompositionPhase) list"

definition voices :: "voice list" where
  "voices = [Bass, Tenor, Alto, Soprano]"

definition baseOctaves :: "real list" where
  "baseOctaves = [1, 2, 3, 4]"

text \<open>
  The constructor: \<open>initFallbacks\<close> creates the four synthesizers, everything else
  has its field initialiser. The library's transport starts stopped at 120 BPM.
\<close>

definition new_engine :: MusicEngine where
  "new_engine =
     \<lparr> samplers = Map.empty,
       fallbacks = [Bass \<mapsto> [], Tenor \<mapsto> [], Alto \<mapsto> [], Soprano \<mapsto> []],
       loop = None,
       loadedStates = (\<lambda>v. False),
       isInitialized = False,
       currentMelodies = [],
       currentPhase = Idle,
       onPhaseChange = None,
       transport_started = False,
       transport_bpm = Num 120,
       notified = [] \<rparr>"

definition setPhaseCallback :: "nat \<Rightarrow> MusicEngine \<Rightarrow> MusicEngine" where
  "setPhaseCallback cb e = e\<lparr>onPhaseChange := Some cb\<rparr>"

text \<open>\<open>if (this.onPhaseChange) this.onPhaseChange(phase)\<close>\<close>

definition notify :: "CompositionPhase \<Rightarrow> MusicEngine \<Rightarrow> MusicEngine" where
  "notify phase e =
     (case onPhaseChange e of
        None \<Rightarrow> e
      | Some cb \<Rightarrow> e\<lparr>notified := notified e @ [(cb, phase)]\<rparr>)"

text \<open>One call on the sampler, or on the fallback synthesizer, of a voice.\<close>

definition sampler_call :: "voice \<Rightarrow> call \<Rightarrow> MusicEngine \<Rightarrow> MusicEngine" where
  "sampler_call v c e =
     (case samplers e v of
        None \<Rightarrow> e
      | Some s \<Rightarrow> e\<lparr>samplers := (samplers e)(v \<mapsto> s\<lparr>calls := calls s @ [c]\<rparr>)\<rparr>)"

definition fallback_call :: "voice \<Rightarrow> call \<Rightarrow> MusicEngine \<Rightarrow> MusicEngine" where
  "fallback_call v c e =
     (case fallbacks e v of
        None \<Rightarrow> e
      | Some f \<Rightarrow> e\<lparr>fallbacks := (fallbacks e)(v \<mapsto> f @ [c])\<rparr>)"

subsection \<open>load\<close>

text \<open>
  For each voice \<open>load\<close> creates a sampler and a promise that resolves when the
  sampler calls \<open>onload\<close> or \<open>onerror\<close>; it awaits all four. What the sample source
  does for a voice is the parameter \<open>outcome\<close>; with a sampler that calls neither,
  \<open>load\<close> never resolves (\<open>None\<close>). Both engine files have this function (the one
  in \<open>src/musicEngine.ts\<close> also sets the volume of the sampler).
\<close>

datatype load_outcome = OnLoad | OnError | Pending

definition load_voice :: "(voice \<Rightarrow> load_outcome) \<Rightarrow> voice \<Rightarrow> MusicEngine \<Rightarrow> MusicEngine" where
  "load_voice outcome key e =
     (let e' = e\<lparr>samplers := (samplers e)(key \<mapsto> \<lparr>loaded = (outcome key = OnLoad), calls = []\<rparr>)\<rparr>
      in case outcome key of
           OnLoad \<Rightarrow> e'\<lparr>loadedStates := (loadedStates e')(key := True)\<rparr>
         | OnError \<Rightarrow> e'\<lparr>loadedStates := (loadedStates e')(key := False)\<rparr>
         | Pending \<Rightarrow> e')"

definition load :: "(voice \<Rightarrow> load_outcome) \<Rightarrow> MusicEngine \<Rightarrow> MusicEngine option" where
  "load outcome e =
     (let e' = fold (load_voice outcome) voices (e\<lparr>isInitialized := True\<rparr>)
      in if list_all (\<lambda>key. outcome key \<noteq> Pending) voices then Some e' else None)"

subsection \<open>Tempo\<close>

text \<open>
  \<open>let sumSqr = 0; for (const v of vector) sumSqr += v * v;\<close> and the clamped
  tempo, the same in both files.
\<close>

definition sumSqr :: "Float32Array \<Rightarrow> jsnum" where
  "sumSqr vector = fold (\<lambda>v s. js_add s (js_mul v v)) vector (Num 0)"

definition targetBpm :: "Float32Array \<Rightarrow> jsnum" where
  "targetBpm vector = js_add (Num 60) (js_mul (Math_sqrt (sumSqr vector)) (Num 250))"

definition bpm_value :: "Float32Array \<Rightarrow> jsnum" where
  "bpm_value vector = Math_min (Num 160) (Math_max (Num 50) (targetBpm vector))"

subsection \<open>The loop callback\<close>

text \<open>
  \<open>scale[k]\<close> is \<open>undefined\<close> (\<open>None\<close>) unless \<open>k\<close> is an index of the array.
  In \<open>scale[k] + (baseOctaves[i] + octaveShift)\<close> a name and a number, also the
  number \<open>NaN\<close>, concatenate; \<open>undefined\<close> and a number add up to \<open>NaN\<close>.
\<close>

definition scale_at :: "jsnum \<Rightarrow> string option" where
  "scale_at k =
     (case k of
        NaN \<Rightarrow> None
      | Num r \<Rightarrow> if r = of_int \<lfloor>r\<rfloor> \<and> 0 \<le> r \<and> r < real (length scale)
                 then Some (scale ! nat \<lfloor>r\<rfloor>) else None)"

definition finalNote :: "NoteEvent \<Rightarrow> nat \<Rightarrow> note_value" where
  "finalNote noteData i =
     (case scale_at (js_rem (noteIndex noteData) (Num (real (length scale)))) of
        None \<Rightarrow> NotANumber
      | Some name \<Rightarrow> Pitch name (js_add (Num (baseOctaves ! i)) (octaveShift noteData)))"

text \<open>
  \<open>melody[step % melody.length]\<close> throws a \<open>TypeError\<close> when \<open>currentMelodies[i]\<close>
  is missing, and so does \<open>noteData.gate\<close> when the melody is empty.
\<close>

datatype error = TypeError

definition noteData_at :: "MusicEngine \<Rightarrow> nat \<Rightarrow> nat \<Rightarrow> error + NoteEvent" where
  "noteData_at e i step =
     (if length (currentMelodies e) \<le> i then Inl TypeError
      else let melody = currentMelodies e ! i
           in if melody = [] then Inl TypeError
              else Inr (melody ! (step mod length melody)))"

fun forEach :: "(voice \<times> nat) list \<Rightarrow> (voice \<Rightarrow> nat \<Rightarrow> MusicEngine \<Rightarrow> error + MusicEngine)
    \<Rightarrow> MusicEngine \<Rightarrow> error + MusicEngine" where
  "forEach [] f e = Inr e"
| "forEach ((v, i) # vs) f e =
     (case f v i e of Inl err \<Rightarrow> Inl err | Inr e' \<Rightarrow> forEach vs f e')"

text \<open>
  The test for the sampler of a voice: \<open>sampler && sampler.loaded\<close> in
  \<open>src/services/musicEngine.ts\<close>, \<open>sampler && this.loadedStates[v]\<close> in
  \<open>src/musicEngine.ts\<close>.
\<close>

definition ready_svc :: "MusicEngine \<Rightarrow> voice \<Rightarrow> bool" where
  "ready_svc e v = (case samplers e v of None \<Rightarrow> False | Some s \<Rightarrow> loaded s)"

definition ready_root :: "MusicEngine \<Rightarrow> voice \<Rightarrow> bool" where
  "ready_root e v = (samplers e v \<noteq> None \<and> loadedStates e v)"

text \<open>The callback in \<open>src/services/musicEngine.ts\<close>.\<close>

definition durations_svc :: "duration list" where
  "durations_svc = [D2n, D4n, D8n, D16n]"

definition voice_step_svc :: "nat \<Rightarrow> nat \<Rightarrow> voice \<Rightarrow> nat \<Rightarrow> MusicEngine \<Rightarrow> error + MusicEngine" where
  "voice_step_svc time step v i e =
     (case noteData_at e i step of
        Inl err \<Rightarrow> Inl err
      | Inr noteData \<Rightarrow>
          if gate noteData \<or> step mod 4 = 0 then
            if ready_svc e v then
              Inr (sampler_call v (TriggerAttackRelease (finalNote noteData i) (durations_svc ! i)
                     time (velocity noteData)) e)
            else
              Inr (fallback_call v (TriggerAttackRelease (finalNote noteData i) (durations_svc ! i)
                     time (js_mul (velocity noteData) (Num 0.4))) e)
          else Inr e)"

text \<open>
  One tick at \<open>time\<close>. Without a loop there is no callback and nothing happens.
\<close>

definition tick_svc :: "nat \<Rightarrow> MusicEngine \<Rightarrow> error + MusicEngine" where
  "tick_svc time e =
     (case loop e of
        None \<Rightarrow> Inr e
      | Some step \<Rightarrow>
          (case forEach (zip voices [0..<length voices]) (voice_step_svc time step) e of
             Inl err \<Rightarrow> Inl err
           | Inr e' \<Rightarrow> Inr (e'\<lparr>loop := Some (step + 1)\<rparr>)))"

text \<open>The callback in \<open>src/musicEngine.ts\<close>.\<close>

definition durations_root :: "duration list" where
  "durations_root = [D4n, D4n, D8n, D16n]"

definition voice_step_root :: "nat \<Rightarrow> nat \<Rightarrow> voice \<Rightarrow> nat \<Rightarrow> MusicEngine \<Rightarrow> error + MusicEngine" where
  "voice_step_root time step v i e =
     (case noteData_at e i step of
        Inl err \<Rightarrow> Inl err
      | Inr noteData \<Rightarrow>
          if gate noteData \<or> step mod 16 = 0 then
            if ready_root e v then
              Inr (sampler_call v (TriggerAttackRelease (finalNote noteData i) (durations_root ! i)
                     time (velocity noteData))
                    (sampler_call v (ReleaseAll (Some time)) e))
            else
              Inr (fallback_call v (TriggerAttackRelease (finalNote noteData i) (durations_root ! i)
                     time (js_mul (velocity noteData) (Num 0.5)))
                    (fallback_call v (ReleaseAll (Some time)) e))
          else Inr e)"

definition tick_root :: "nat \<Rightarrow> MusicEngine \<Rightarrow> error + MusicEngine" where
  "tick_root time e =
     (case loop e of
        None \<Rightarrow> Inr e
      | Some step \<Rightarrow>
          (case forEach (zip voices [0..<length voices]) (voice_step_root time step) e of
             Inl err \<Rightarrow> Inl err
           | Inr e' \<Rightarrow> Inr (e'\<lparr>loop := Some (step + 1)\<rparr>)))"

text \<open>\<open>n\<close> ticks of the clock, the first at \<open>time\<close>.\<close>

fun ticks_svc :: "nat \<Rightarrow> nat \<Rightarrow> MusicEngine \<Rightarrow> error + MusicEngine" where
  "ticks_svc time 0 e = Inr e"
| "ticks_svc time (Suc n) e =
     (case tick_svc time e of Inl err \<Rightarrow> Inl err | Inr e' \<Rightarrow> ticks_svc (time + 1) n e')"

fun ticks_root :: "nat \<Rightarrow> nat \<Rightarrow> MusicEngine \<Rightarrow> error + MusicEngine" where
  "ticks_root time 0 e = Inr e"
| "ticks_root time (Suc n) e =
     (case tick_root time e of Inl err \<Rightarrow> Inl err | Inr e' \<Rightarrow> ticks_root (time + 1) n e')"

subsection \<open>stop and play\<close>

text \<open>
  \<open>stop\<close> in \<open>src/services/musicEngine.ts\<close>: the transport is stopped and its
  events cancelled, the loop stopped, disposed and forgotten.
\<close>

definition stop_svc :: "MusicEngine \<Rightarrow> MusicEngine" where
  "stop_svc e =
     notify Idle (e\<lparr>transport_started := False, loop := None, currentPhase := Idle\<rparr>)"

text \<open>
  \<open>stop\<close> in \<open>src/musicEngine.ts\<close> also calls \<open>releaseAll()\<close> on every sampler
  and on every fallback synthesizer.
\<close>

definition releaseAll_samplers :: "MusicEngine \<Rightarrow> MusicEngine" where
  "releaseAll_samplers e =
     e\<lparr>samplers := (\<lambda>v. map_option (\<lambda>s. s\<lparr>calls := calls s @ [ReleaseAll None]\<rparr>) (samplers e v))\<rparr>"

definition releaseAll_fallbacks :: "MusicEngine \<Rightarrow> MusicEngine" where
  "releaseAll_fallbacks e =
     e\<lparr>fallbacks := (\<lambda>v. map_option (\<lambda>f. f @ [ReleaseAll None]) (fallbacks e v))\<rparr>"

definition stop_root :: "MusicEngine \<Rightarrow> MusicEngine" where
  "stop_root e =
     notify Idle
       ((releaseAll_fallbacks (releaseAll_samplers (e\<lparr>transport_started := False\<rparr>)))
          \<lparr>loop := None, currentPhase := Idle\<rparr>)"

text \<open>
  \<open>play\<close>, once the audio context runs: stop, the new phase and its notification,
  the four melodies, the tempo, a new loop at step 0, the transport started.
\<close>

definition play_svc :: "Float32Array \<Rightarrow> CompositionPhase \<Rightarrow> MusicEngine \<Rightarrow> MusicEngine" where
  "play_svc vector phase e =
     (let e1 = stop_svc e;
          e2 = notify phase (e1\<lparr>currentPhase := phase\<rparr>);
          e3 = e2\<lparr>currentMelodies :=
                    [getVoiceMelody_svc (slice vector 0 96) 0 16,
                     getVoiceMelody_svc (slice vector 96 192) 1 16,
                     getVoiceMelody_svc (slice vector 192 288) 2 16,
                     getVoiceMelody_svc (slice vector 288 384) 3 16]\<rparr>;
          e4 = e3\<lparr>transport_bpm := bpm_value vector\<rparr>;
          e5 = e4\<lparr>loop := Some 0\<rparr>
      in e5\<lparr>transport_started := True\<rparr>)"

definition play_root :: "Float32Array \<Rightarrow> CompositionPhase \<Rightarrow> MusicEngine \<Rightarrow> MusicEngine" where
  "play_root vector phase e =
     (let e1 = stop_root e;
          e2 = notify phase (e1\<lparr>currentPhase := phase\<rparr>);
          e3 = e2\<lparr>currentMelodies :=
                    [getVoiceMelody_root (slice vector 0 96) 0 16,
                     getVoiceMelody_root (slice vector 96 192) 1 16,
                     getVoiceMelody_root (slice vector 192 288) 2 16,
                     getVoiceMelody_root (slice vector 288 384) 3 16]\<rparr>;
          e4 = e3\<lparr>transport_bpm := bpm_value vector\<rparr>;
          e5 = e4\<lparr>loop := Some 0\<rparr>
      in e5\<lparr>transport_started := True\<rparr>)"

subsection \<open>Sounding notes\<close>

text \<open>
  What the calls mean for the library: a \<open>triggerAttackRelease\<close> at time \<open>t\<close>
  starts a note that sounds for its duration, \<open>releaseAll\<close> ends every note started
  before it. \<open>held\<close> are the notes no \<open>releaseAll\<close> has ended, \<open>sounding_at now\<close>
  those of them whose duration covers \<open>now\<close>.
\<close>

fun sixteenths :: "duration \<Rightarrow> nat" where
  "sixteenths D2n = 8"
| "sixteenths D4n = 4"
| "sixteenths D8n = 2"
| "sixteenths D16n = 1"

fun after_call :: "call list \<Rightarrow> call \<Rightarrow> call list" where
  "after_call notes (ReleaseAll t) = []"
| "after_call notes (TriggerAttackRelease n d t v) = notes @ [TriggerAttackRelease n d t v]"

definition held :: "call list \<Rightarrow> call list" where
  "held cs = foldl after_call [] cs"

fun covers :: "nat \<Rightarrow> call \<Rightarrow> bool" where
  "covers now (TriggerAttackRelease n d t v) = (t \<le> now \<and> now < t + sixteenths d)"
| "covers now (ReleaseAll t) = False"

definition sounding_at :: "nat \<Rightarrow> call list \<Rightarrow> call list" where
  "sounding_at now cs = filter (covers now) (held cs)"

text \<open>The calls made so far on the two instruments of a voice.\<close>

definition sampler_calls :: "MusicEngine \<Rightarrow> voice \<Rightarrow> call list" where
  "sampler_calls e v = (case samplers e v of None \<Rightarrow> [] | Some s \<Rightarrow> calls s)"

definition fallback_calls :: "MusicEngine \<Rightarrow> voice \<Rightarrow> call list" where
  "fallback_calls e v = (case fallbacks e v of None \<Rightarrow> [] | Some f \<Rightarrow> f)"

text \<open>
  The position of a voice in \<open>voices\<close>, and the state of the engine apart from the
  calls made on the instruments and the step counter of the loop.
\<close>

fun voice_index :: "voice \<Rightarrow> nat" where
  "voice_index Bass = 0"
| "voice_index Tenor = 1"
| "voice_index Alto = 2"
| "voice_index Soprano = 3"

definition config :: "MusicEngine \<Rightarrow>
    NoteEvent list list \<times> (voice \<Rightarrow> bool) \<times> (voice \<Rightarrow> bool option) \<times> (voice \<Rightarrow> bool)
    \<times> CompositionPhase \<times> nat option \<times> (nat \<times> CompositionPhase) list \<times> bool \<times> jsnum \<times> bool" where
  "config e =
     (currentMelodies e, loadedStates e, (\<lambda>v. map_option loaded (samplers e v)),
      (\<lambda>v. fallbacks e v = None), currentPhase e, onPhaseChange e, notified e,
      transport_started e, transport_bpm e, isInitialized e)"

text \<open>
  Voice-exclusive retriggering: on each instrument at most one note that no
  \<open>releaseAll\<close> has ended.
\<close>

definition voice_exclusive :: "MusicEngine \<Rightarrow> bool" where
  "voice_exclusive e \<longleftrightarrow>
     (\<forall>key. length (held (sampler_calls e key)) \<le> 1 \<and> length (held (fallback_calls e key)) \<le> 1)"

section \<open>The formulas of the specification\<close>

text \<open>
  The specification's own words for what the generators and the tempo derivation
  compute, on reals, with the real hyperbolic tangent; the theorems below compare the
  code with them.
\<close>

definition clamp :: "real \<Rightarrow> real \<Rightarrow> real \<Rightarrow> real" where
  "clamp x lo hi = (if x < lo then lo else if hi < x then hi else x)"

definition spec_scaleDegreeIndex :: "real \<Rightarrow> int" where
  "spec_scaleDegreeIndex val = \<bar>\<lfloor>tanh (val * 15) * 14\<rfloor>\<bar> mod 7"

definition spec_octaveShift :: "real \<Rightarrow> int" where
  "spec_octaveShift val = \<lfloor>tanh (val * 15) * 2\<rfloor>"

definition spec_velocity :: "real \<Rightarrow> real" where
  "spec_velocity val = clamp (0.5 + val * 5) 0.25 1.0"

definition magnitude :: "real list \<Rightarrow> real" where
  "magnitude v = sqrt (\<Sum>x\<leftarrow>v. x * x)"

definition spec_tempo :: "real list \<Rightarrow> real" where
  "spec_tempo v = clamp (60 + magnitude v * 250) 50 160"

text \<open>
  The same two formulas with the hyperbolic tangent of the engine, and the note of the
  specification, \<open>scale[scaleDegreeIndex] + (baseOctave[voice] + octaveShift)\<close>, for a
  step value and the index of a voice.
\<close>

definition computed_scaleDegreeIndex :: "real \<Rightarrow> int" where
  "computed_scaleDegreeIndex val = \<bar>\<lfloor>tanh_double (val * 15) * 14\<rfloor>\<bar> mod 7"

definition computed_octaveShift :: "real \<Rightarrow> int" where
  "computed_octaveShift val = \<lfloor>tanh_double (val * 15) * 2\<rfloor>"

definition computed_note :: "real \<Rightarrow> nat \<Rightarrow> note_value" where
  "computed_note val i =
     Pitch (scale ! nat (computed_scaleDegreeIndex val))
           (Num (baseOctaves ! i + of_int (computed_octaveShift val)))"

text \<open>
  The number a voice reads at step \<open>n\<close> of the loop, in a vector of 384 numbers: entry
  \<open>n mod 16\<close> of the slice of the voice.
\<close>

definition step_value :: "real list \<Rightarrow> voice \<Rightarrow> nat \<Rightarrow> real" where
  "step_value vec key n = vec ! (96 * voice_index key + n mod 16)"

text \<open>The gate of step \<open>i\<close> with the base threshold \<open>base\<close>.\<close>

definition gate_with :: "real \<Rightarrow> Float32Array \<Rightarrow> nat \<Rightarrow> nat \<Rightarrow> bool" where
  "gate_with base vectorSlice voiceIdx i =
     js_gt (Math_abs (js_mul (at_mod vectorSlice i) (Num 25)))
           (js_add (Num base) (js_mul (Num (real voiceIdx)) (Num 0.1)))"

section \<open>The loops as maps over the step indices\<close>

lemma loop_svc_map:
  "loop_svc s v n i acc = acc @ map (note_svc s v) [i..<n]"
proof (induction s v n i acc rule: loop_svc.induct)
  case (1 s v n i acc)
  show ?case
  proof (cases "i < n")
    case True
    with "1" show ?thesis
      by (subst loop_svc.simps) (simp add: upt_conv_Cons)
  next
    case False
    then show ?thesis
      by (subst loop_svc.simps) simp
  qed
qed

lemma loop_root_map:
  "loop_root s v n i acc = acc @ map (note_root s v) [i..<n]"
proof (induction s v n i acc rule: loop_root.induct)
  case (1 s v n i acc)
  show ?case
  proof (cases "i < n")
    case True
    with "1" show ?thesis
      by (subst loop_root.simps) (simp add: upt_conv_Cons)
  next
    case False
    then show ?thesis
      by (subst loop_root.simps) simp
  qed
qed

lemma getVoiceMelody_svc_map:
  "getVoiceMelody_svc s v n = map (note_svc s v) [0..<n]"
  by (simp add: getVoiceMelody_svc_def loop_svc_map)

lemma getVoiceMelody_root_map:
  "getVoiceMelody_root s v n = map (note_root s v) [0..<n]"
  by (simp add: getVoiceMelody_root_def loop_root_map)


section \<open>Numbers\<close>


lemma js_rem_nonneg_int:
  assumes "0 \<le> k"
  shows "js_rem (Num (of_int k)) (Num 7) = Num (of_int (k mod 7))"
proof -
  have "(0::real) \<le> of_int k / 7" using assms by simp
  then have "trunc (of_int k / 7) = \<lfloor>(of_int k :: real) / of_int 7\<rfloor>"
    by (simp add: trunc_def)
  also have "\<dots> = k div 7" by (rule floor_divide_of_int_eq)
  finally have t: "trunc (of_int k / 7) = k div 7" .
  have "k = 7 * (k div 7) + k mod 7" by simp
  then have "(of_int k :: real) = 7 * of_int (k div 7) + of_int (k mod 7)"
    by (metis of_int_add of_int_mult of_int_numeral)
  then show ?thesis using t by simp
qed

lemma js_rem_abs_int:
  "js_rem (Num \<bar>of_int k\<bar>) (Num 7) = Num (of_int (\<bar>k\<bar> mod 7))"
proof -
  have "js_rem (Num (of_int \<bar>k\<bar>)) (Num 7) = Num (of_int (\<bar>k\<bar> mod 7))"
    by (rule js_rem_nonneg_int) simp
  then show ?thesis by simp
qed

lemma tanh_ge_one_minus:
  fixes x :: real
  assumes "exp (- 2 * x) \<le> eps / 2" and "0 \<le> eps"
  shows "1 - eps \<le> tanh x"
proof -
  let ?u = "exp (- 2 * x)"
  have u: "0 < ?u" by simp
  have "(1 - eps) * (1 + ?u) \<le> 1 - ?u"
  proof -
    have "?u * (2 - eps) \<le> ?u * 2"
      using u assms(2) by (simp add: mult_left_mono)
    also have "\<dots> \<le> eps"
      using assms(1) by simp
    finally show ?thesis
      by (simp add: algebra_simps)
  qed
  moreover have p: "0 < 1 + ?u"
    using u by (simp add: add_pos_pos)
  ultimately have "1 - eps \<le> (1 - ?u) / (1 + ?u)"
    by (simp only: pos_le_divide_eq)
  then show ?thesis
    by (simp add: tanh_real_altdef)
qed

lemma tanh_less_one_minus:
  fixes x :: real
  assumes "eps < exp (- 2 * x)" and "0 \<le> eps" and "eps \<le> 1"
  shows "tanh x < 1 - eps"
proof -
  let ?u = "exp (- 2 * x)"
  have u: "0 < ?u" by simp
  have "eps < ?u * (2 - eps)"
  proof -
    have "?u * 1 \<le> ?u * (2 - eps)"
      using u assms(3) by (intro mult_left_mono) simp_all
    then have "?u \<le> ?u * (2 - eps)"
      by (simp only: mult_1_right)
    with assms(1) show ?thesis
      by (rule less_le_trans)
  qed
  then have "1 - ?u < (1 - eps) * (1 + ?u)"
    by (simp add: algebra_simps)
  moreover have p: "0 < 1 + ?u"
    using u by (simp add: add_pos_pos)
  ultimately have "(1 - ?u) / (1 + ?u) < 1 - eps"
    by (simp only: pos_divide_less_eq)
  then show ?thesis
    by (simp add: tanh_real_altdef)
qed

lemma exp_nat_lower: "2 ^ n \<le> exp (real n)"
proof -
  have "(2::real) \<le> exp 1"
    using exp_ge_add_one_self [of "1::real"] by simp
  then have "(2::real) ^ n \<le> exp 1 ^ n"
    by (intro power_mono) simp_all
  also have "\<dots> = exp (real n)"
    using exp_of_nat_mult [of n "1::real"] by simp
  finally show ?thesis .
qed

lemma exp_nat_upper: "exp (real n) \<le> 3 ^ n"
proof -
  have "exp (real n) = exp 1 ^ n"
    using exp_of_nat_mult [of n "1::real"] by simp
  also have "\<dots> \<le> 3 ^ n"
    using exp_le by (intro power_mono) simp_all
  finally show ?thesis .
qed

text \<open>At 30 the hyperbolic tangent is within \<open>2\<^sup>-\<^sup>5\<^sup>4\<close> of 1, at 15 it is not.\<close>

lemma tanh_30: "1 - 1 / 2 ^ 54 \<le> tanh (30::real)"
proof -
  have "(2::real) ^ 60 \<le> exp (real 60)" by (rule exp_nat_lower)
  then have "(2::real) ^ 60 \<le> exp 60" by simp
  then have "1 / exp 60 \<le> 1 / (2::real) ^ 60"
    by (intro divide_left_mono) simp_all
  then have "exp (- 2 * 30) \<le> (1 / 2 ^ 54) / (2::real)"
    by (simp add: exp_minus inverse_eq_divide)
  then show ?thesis
    by (rule tanh_ge_one_minus) simp
qed

lemma tanh_15_upper: "tanh (15::real) < 1 - 1 / 2 ^ 54"
proof -
  have "exp (real 30) \<le> 3 ^ 30" by (rule exp_nat_upper)
  then have "exp (30::real) < 2 ^ 54" by simp
  then have "1 / (2::real) ^ 54 < 1 / exp 30"
    by (intro divide_strict_left_mono) simp_all
  then have "1 / 2 ^ 54 < exp (- 2 * (15::real))"
    by (simp add: exp_minus inverse_eq_divide)
  then show ?thesis
    by (rule tanh_less_one_minus) simp_all
qed

lemma tanh_15_lower: "13 / 14 \<le> tanh (15::real)"
proof -
  have "(2::real) ^ 30 \<le> exp (real 30)" by (rule exp_nat_lower)
  then have "(28::real) \<le> exp 30" by simp
  then have "1 / exp 30 \<le> 1 / (28::real)"
    by (intro divide_left_mono) simp_all
  then have "exp (- 2 * 15) \<le> (1 / 14) / (2::real)"
    by (simp add: exp_minus inverse_eq_divide)
  then have "1 - 1 / 14 \<le> tanh (15::real)"
    by (rule tanh_ge_one_minus) simp
  then show ?thesis by simp
qed

lemma tanh_double_0: "tanh_double 0 = 0"
  by (simp add: tanh_double_def)

lemma tanh_double_saturated: "1 - 1 / 2 ^ 54 \<le> tanh x \<Longrightarrow> tanh_double x = 1"
  by (simp add: tanh_double_def)

lemma tanh_double_bounds: "- 1 \<le> tanh_double x \<and> tanh_double x \<le> 1"
  using tanh_real_lt_1 [of x] tanh_real_gt_neg1 [of x]
  by (simp add: tanh_double_def)

text \<open>
  Below the saturation at 1 the two floors of the generator do not see the rounding:
  at \<open>-1\<close> the real value and \<open>-1\<close> have the same floors.
\<close>

lemma tanh_double_floors:
  assumes "tanh x < 1 - 1 / 2 ^ 54"
  shows "\<lfloor>tanh_double x * 14\<rfloor> = \<lfloor>tanh x * 14\<rfloor> \<and> \<lfloor>tanh_double x * 2\<rfloor> = \<lfloor>tanh x * 2\<rfloor>"
proof (cases "tanh x \<le> - (1 - 1 / 2 ^ 54)")
  case True
  then have d: "tanh_double x = - 1"
    using assms by (simp add: tanh_double_def)
  have g: "- 1 < tanh x"
    by (rule tanh_real_gt_neg1)
  have "\<lfloor>tanh x * 14\<rfloor> = - 14"
    by (rule floor_unique) (use True g in simp_all)
  moreover have "\<lfloor>tanh x * 2\<rfloor> = - 2"
    by (rule floor_unique) (use True g in simp_all)
  ultimately show ?thesis
    by (simp add: d)
next
  case False
  then have "tanh_double x = tanh x"
    using assms by (simp add: tanh_double_def)
  then show ?thesis by simp
qed

lemma length_scale: "length scale = 7"
  by (simp add: scale_def)

lemma at_mod_Num:
  "xs \<noteq> [] \<Longrightarrow> at_mod (map Num xs) i = Num (xs ! (i mod length xs))"
  by (simp add: at_mod_def)

lemma note_svc_Num:
  assumes "xs \<noteq> []"
  shows "note_svc (map Num xs) v i =
    \<lparr> noteIndex = Num (of_int (computed_scaleDegreeIndex (xs ! (i mod length xs)))),
      octaveShift = Num (of_int (computed_octaveShift (xs ! (i mod length xs)))),
      gate = (0.4 + real v * 0.1 < \<bar>xs ! (i mod length xs) * 25\<bar>),
      velocity = Num (min 1 (max 0.25 (0.5 + xs ! (i mod length xs) * 5))) \<rparr>"
  using assms
  by (simp add: note_svc_def at_mod_Num Let_def length_scale js_rem_abs_int
      computed_scaleDegreeIndex_def computed_octaveShift_def del: js_rem.simps)

lemma note_root_Num:
  assumes "xs \<noteq> []"
  shows "note_root (map Num xs) v i =
    \<lparr> noteIndex = Num (of_int (computed_scaleDegreeIndex (xs ! (i mod length xs)))),
      octaveShift = Num (of_int (computed_octaveShift (xs ! (i mod length xs)))),
      gate = (0.5 + real v * 0.1 < \<bar>xs ! (i mod length xs) * 25\<bar>),
      velocity = Num (min 1 (max 0.25 (0.5 + xs ! (i mod length xs) * 5))) \<rparr>"
  using assms
  by (simp add: note_root_def at_mod_Num Let_def length_scale js_rem_abs_int
      computed_scaleDegreeIndex_def computed_octaveShift_def del: js_rem.simps)

lemma min_max_clamp: "lo \<le> hi \<Longrightarrow> min hi (max lo x) = clamp x lo hi"
  by (simp add: clamp_def min_def max_def)

lemma clamp_bounds: "lo \<le> hi \<Longrightarrow> lo \<le> clamp x lo hi \<and> clamp x lo hi \<le> hi"
  by (simp add: clamp_def)

lemma clamp_mono: "lo \<le> hi \<Longrightarrow> x \<le> y \<Longrightarrow> clamp x lo hi \<le> clamp y lo hi"
  by (simp add: clamp_def)

lemma spec_scaleDegreeIndex_range: "0 \<le> spec_scaleDegreeIndex val \<and> spec_scaleDegreeIndex val \<le> 6"
  by (simp add: spec_scaleDegreeIndex_def) 

lemma computed_scaleDegreeIndex_range:
  "0 \<le> computed_scaleDegreeIndex val \<and> computed_scaleDegreeIndex val \<le> 6"
  by (simp add: computed_scaleDegreeIndex_def)

lemma computed_unsaturated:
  assumes "tanh (val * 15) < 1 - 1 / 2 ^ 54"
  shows "computed_scaleDegreeIndex val = spec_scaleDegreeIndex val
       \<and> computed_octaveShift val = spec_octaveShift val"
  using tanh_double_floors [OF assms]
  by (simp add: computed_scaleDegreeIndex_def computed_octaveShift_def
      spec_scaleDegreeIndex_def spec_octaveShift_def)

lemma computed_saturated:
  assumes "1 - 1 / 2 ^ 54 \<le> tanh (val * 15)"
  shows "computed_scaleDegreeIndex val = 0 \<and> computed_octaveShift val = 2"
  using tanh_double_saturated [OF assms]
  by (simp add: computed_scaleDegreeIndex_def computed_octaveShift_def)

lemma spec_at_1: "spec_scaleDegreeIndex 1 = 6 \<and> spec_octaveShift 1 = 1"
proof -
  have u: "tanh (15::real) < 1"
    by (rule tanh_real_lt_1)
  have "\<lfloor>tanh (15::real) * 14\<rfloor> = 13"
    by (rule floor_unique) (use tanh_15_lower u in simp_all)
  moreover have "\<lfloor>tanh (15::real) * 2\<rfloor> = 1"
    by (rule floor_unique) (use tanh_15_lower u in simp_all)
  ultimately show ?thesis
    by (simp add: spec_scaleDegreeIndex_def spec_octaveShift_def)
qed

lemma spec_at_2: "spec_scaleDegreeIndex 2 = 6 \<and> spec_octaveShift 2 = 1"
proof -
  have u: "tanh (30::real) < 1"
    by (rule tanh_real_lt_1)
  have l: "13 / 14 \<le> tanh (30::real)"
    using tanh_30 by simp
  have "\<lfloor>tanh (30::real) * 14\<rfloor> = 13"
    by (rule floor_unique) (use l u in simp_all)
  moreover have "\<lfloor>tanh (30::real) * 2\<rfloor> = 1"
    by (rule floor_unique) (use l u in simp_all)
  ultimately show ?thesis
    by (simp add: spec_scaleDegreeIndex_def spec_octaveShift_def)
qed


section \<open>The melody generators\<close>


lemma length_getVoiceMelody_svc: "length (getVoiceMelody_svc s v n) = n"
  by (simp add: getVoiceMelody_svc_map)

lemma length_getVoiceMelody_root: "length (getVoiceMelody_root s v n) = n"
  by (simp add: getVoiceMelody_root_map)

lemma nth_getVoiceMelody_svc: "i < n \<Longrightarrow> getVoiceMelody_svc s v n ! i = note_svc s v i"
  by (simp add: getVoiceMelody_svc_map)

lemma nth_getVoiceMelody_root: "i < n \<Longrightarrow> getVoiceMelody_root s v n ! i = note_root s v i"
  by (simp add: getVoiceMelody_root_map)

text \<open>
  C10: the melody generators of the two engine files give the same note index, octave
  shift and velocity at every step, for every slice, voice index and step count; their
  gates are the same comparison with the base threshold 0.4 in
  \<open>src/services/musicEngine.ts\<close> and 0.5 in \<open>src/musicEngine.ts\<close>.
\<close>

theorem variants_differ_in_gate_only:
  "map noteIndex (getVoiceMelody_root s v n) = map noteIndex (getVoiceMelody_svc s v n)
   \<and> map octaveShift (getVoiceMelody_root s v n) = map octaveShift (getVoiceMelody_svc s v n)
   \<and> map velocity (getVoiceMelody_root s v n) = map velocity (getVoiceMelody_svc s v n)
   \<and> map gate (getVoiceMelody_svc s v n) = map (gate_with 0.4 s v) [0..<n]
   \<and> map gate (getVoiceMelody_root s v n) = map (gate_with 0.5 s v) [0..<n]"
  by (simp add: getVoiceMelody_svc_map getVoiceMelody_root_map note_svc_def note_root_def
      Let_def gate_with_def)

lemma spec_velocity_eq: "min 1 (max (1 / 4) (1 / 2 + val * 5)) = spec_velocity val"
  by (simp add: spec_velocity_def clamp_def min_def max_def)

lemma spec_velocity_range: "0.25 \<le> spec_velocity val \<and> spec_velocity val \<le> 1"
  using clamp_bounds [of "0.25" 1 "0.5 + val * 5"] by (simp add: spec_velocity_def)

text \<open>
  C2, as stated, fails: at \<open>val = 2\<close> the real \<open>tanh(30)\<close> is below 1 and the
  formulas give the note index 6 and the octave shift 1, while \<open>Math.tanh(30)\<close> is
  exactly 1 and the generators give 0 and 2.
\<close>

theorem real_tanh_formulas_counterexample:
  "noteIndex (getVoiceMelody_svc (map Num (replicate 96 2)) 0 16 ! 0)
     \<noteq> Num (of_int (spec_scaleDegreeIndex (replicate 96 2 ! (0 mod 96))))
   \<and> octaveShift (getVoiceMelody_svc (map Num (replicate 96 2)) 0 16 ! 0)
     \<noteq> Num (of_int (spec_octaveShift (replicate 96 2 ! (0 mod 96))))
   \<and> noteIndex (getVoiceMelody_root (map Num (replicate 96 2)) 0 16 ! 0)
     \<noteq> Num (of_int (spec_scaleDegreeIndex (replicate 96 2 ! (0 mod 96))))
   \<and> octaveShift (getVoiceMelody_root (map Num (replicate 96 2)) 0 16 ! 0)
     \<noteq> Num (of_int (spec_octaveShift (replicate 96 2 ! (0 mod 96))))"
proof -
  have ne: "replicate 96 (2::real) \<noteq> []"
    by simp
  have s: "1 - 1 / 2 ^ 54 \<le> tanh (2 * 15 :: real)"
    using tanh_30 by simp
  have c: "computed_scaleDegreeIndex 2 = 0" "computed_octaveShift 2 = 2"
    using computed_saturated [OF s] by simp_all
  have n: "note_svc (map Num (replicate 96 2)) 0 0
      = \<lparr>noteIndex = Num 0, octaveShift = Num 2, gate = True, velocity = Num 1\<rparr>"
    "note_root (map Num (replicate 96 2)) 0 0
      = \<lparr>noteIndex = Num 0, octaveShift = Num 2, gate = True, velocity = Num 1\<rparr>"
    using note_svc_Num [OF ne, of 0 0] note_root_Num [OF ne, of 0 0] by (simp_all add: c)
  have g: "getVoiceMelody_svc (map Num (replicate 96 2)) 0 16 ! 0
      = note_svc (map Num (replicate 96 2)) 0 0"
    "getVoiceMelody_root (map Num (replicate 96 2)) 0 16 ! 0
      = note_root (map Num (replicate 96 2)) 0 0"
    by (rule nth_getVoiceMelody_svc, simp, rule nth_getVoiceMelody_root, simp)
  show ?thesis
    unfolding g n using spec_at_2 by simp
qed

text \<open>
  C2, amended: for a slice of 96 reals and a voice index from 0 to 3, the generator of
  either file returns 16 note events with the default step count. At step \<open>i\<close>, with
  \<open>val = slice[i mod 96]\<close> and \<open>amplified\<close> the value of \<open>Math.tanh(val * 15)\<close> in
  doubles (the hyperbolic tangent, but exactly 1 once it is within \<open>2\<^sup>-\<^sup>5\<^sup>4\<close> of 1), the
  note index is \<open>|floor(amplified * 14)| mod 7\<close>, which lies in 0..6, the octave shift is
  \<open>floor(amplified * 2)\<close>, and the velocity is \<open>0.5 + val * 5\<close> clamped to 0.25..1, which
  lies in that range. Where \<open>tanh(val * 15)\<close> is not within \<open>2\<^sup>-\<^sup>5\<^sup>4\<close> of 1, the note index
  and the octave shift are those of the formulas with the real \<open>tanh\<close>; where it is,
  they are 0 and 2.
\<close>

theorem getVoiceMelody_sixteen_notes:
  fixes xs :: "real list"
  assumes "length xs = 96" and "voiceIdx \<le> 3"
  shows "length (getVoiceMelody_svc (map Num xs) voiceIdx 16) = 16
       \<and> length (getVoiceMelody_root (map Num xs) voiceIdx 16) = 16
       \<and> (\<forall>i<16. \<forall>ev. ev = getVoiceMelody_svc (map Num xs) voiceIdx 16 ! i
                     \<or> ev = getVoiceMelody_root (map Num xs) voiceIdx 16 ! i \<longrightarrow>
             noteIndex ev = Num (of_int (\<bar>\<lfloor>tanh_double (xs ! (i mod 96) * 15) * 14\<rfloor>\<bar> mod 7))
           \<and> 0 \<le> \<bar>\<lfloor>tanh_double (xs ! (i mod 96) * 15) * 14\<rfloor>\<bar> mod 7
           \<and> \<bar>\<lfloor>tanh_double (xs ! (i mod 96) * 15) * 14\<rfloor>\<bar> mod 7 \<le> 6
           \<and> octaveShift ev = Num (of_int \<lfloor>tanh_double (xs ! (i mod 96) * 15) * 2\<rfloor>)
           \<and> velocity ev = Num (spec_velocity (xs ! (i mod 96)))
           \<and> 0.25 \<le> spec_velocity (xs ! (i mod 96))
           \<and> spec_velocity (xs ! (i mod 96)) \<le> 1
           \<and> (tanh (xs ! (i mod 96) * 15) < 1 - 1 / 2 ^ 54 \<longrightarrow>
                 noteIndex ev = Num (of_int (spec_scaleDegreeIndex (xs ! (i mod 96))))
               \<and> octaveShift ev = Num (of_int (spec_octaveShift (xs ! (i mod 96)))))
           \<and> (1 - 1 / 2 ^ 54 \<le> tanh (xs ! (i mod 96) * 15) \<longrightarrow>
                 noteIndex ev = Num 0 \<and> octaveShift ev = Num 2))"
proof -
  from assms have ne: "xs \<noteq> []" by auto
  have n: "noteIndex ev = Num (of_int (computed_scaleDegreeIndex (xs ! (i mod 96))))
      \<and> octaveShift ev = Num (of_int (computed_octaveShift (xs ! (i mod 96))))
      \<and> velocity ev = Num (spec_velocity (xs ! (i mod 96)))"
    if "i < 16" and "ev = getVoiceMelody_svc (map Num xs) voiceIdx 16 ! i
                     \<or> ev = getVoiceMelody_root (map Num xs) voiceIdx 16 ! i" for i ev
    using that assms(1)
    by (auto simp add: nth_getVoiceMelody_svc nth_getVoiceMelody_root
        note_svc_Num [OF ne] note_root_Num [OF ne] spec_velocity_eq)
  have u: "tanh (val * 15) < 1 - 1 / 2 ^ 54 \<longrightarrow>
             computed_scaleDegreeIndex val = spec_scaleDegreeIndex val
           \<and> computed_octaveShift val = spec_octaveShift val" for val
    using computed_unsaturated [of val] by blast
  have s: "1 - 1 / 2 ^ 54 \<le> tanh (val * 15) \<longrightarrow>
             computed_scaleDegreeIndex val = 0 \<and> computed_octaveShift val = 2" for val
    using computed_saturated [of val] by blast
  have d: "\<bar>\<lfloor>tanh_double (val * 15) * 14\<rfloor>\<bar> mod 7 = computed_scaleDegreeIndex val"
    "\<lfloor>tanh_double (val * 15) * 2\<rfloor> = computed_octaveShift val" for val
    by (simp_all add: computed_scaleDegreeIndex_def computed_octaveShift_def)
  have main: "\<forall>i<16. \<forall>ev. ev = getVoiceMelody_svc (map Num xs) voiceIdx 16 ! i
                     \<or> ev = getVoiceMelody_root (map Num xs) voiceIdx 16 ! i \<longrightarrow>
             noteIndex ev = Num (of_int (computed_scaleDegreeIndex (xs ! (i mod 96))))
           \<and> 0 \<le> computed_scaleDegreeIndex (xs ! (i mod 96))
           \<and> computed_scaleDegreeIndex (xs ! (i mod 96)) \<le> 6
           \<and> octaveShift ev = Num (of_int (computed_octaveShift (xs ! (i mod 96))))
           \<and> velocity ev = Num (spec_velocity (xs ! (i mod 96)))
           \<and> 0.25 \<le> spec_velocity (xs ! (i mod 96))
           \<and> spec_velocity (xs ! (i mod 96)) \<le> 1
           \<and> (tanh (xs ! (i mod 96) * 15) < 1 - 1 / 2 ^ 54 \<longrightarrow>
                 noteIndex ev = Num (of_int (spec_scaleDegreeIndex (xs ! (i mod 96))))
               \<and> octaveShift ev = Num (of_int (spec_octaveShift (xs ! (i mod 96)))))
           \<and> (1 - 1 / 2 ^ 54 \<le> tanh (xs ! (i mod 96) * 15) \<longrightarrow>
                 noteIndex ev = Num 0 \<and> octaveShift ev = Num 2)"
  proof (intro allI impI)
    fix i ev
    assume a: "i < 16" and b: "ev = getVoiceMelody_svc (map Num xs) voiceIdx 16 ! i
                     \<or> ev = getVoiceMelody_root (map Num xs) voiceIdx 16 ! i"
    note N = n [OF a b]
    show "noteIndex ev = Num (of_int (computed_scaleDegreeIndex (xs ! (i mod 96))))
           \<and> 0 \<le> computed_scaleDegreeIndex (xs ! (i mod 96))
           \<and> computed_scaleDegreeIndex (xs ! (i mod 96)) \<le> 6
           \<and> octaveShift ev = Num (of_int (computed_octaveShift (xs ! (i mod 96))))
           \<and> velocity ev = Num (spec_velocity (xs ! (i mod 96)))
           \<and> 0.25 \<le> spec_velocity (xs ! (i mod 96))
           \<and> spec_velocity (xs ! (i mod 96)) \<le> 1
           \<and> (tanh (xs ! (i mod 96) * 15) < 1 - 1 / 2 ^ 54 \<longrightarrow>
                 noteIndex ev = Num (of_int (spec_scaleDegreeIndex (xs ! (i mod 96))))
               \<and> octaveShift ev = Num (of_int (spec_octaveShift (xs ! (i mod 96)))))
           \<and> (1 - 1 / 2 ^ 54 \<le> tanh (xs ! (i mod 96) * 15) \<longrightarrow>
                 noteIndex ev = Num 0 \<and> octaveShift ev = Num 2)"
      unfolding N [THEN conjunct1] N [THEN conjunct2, THEN conjunct1]
        N [THEN conjunct2, THEN conjunct2]
      using u [of "xs ! (i mod 96)"] s [of "xs ! (i mod 96)"]
        computed_scaleDegreeIndex_range [of "xs ! (i mod 96)"]
        spec_velocity_range [of "xs ! (i mod 96)"]
      by simp
  qed
  show ?thesis
    unfolding d
    by (intro conjI) (rule length_getVoiceMelody_svc, rule length_getVoiceMelody_root, rule main)
qed

theorem getVoiceMelody_sixteen_notes_witness:
  "length (replicate 96 (1::real)) = 96 \<and> length (replicate 96 (2::real)) = 96
   \<and> (0::nat) \<le> 3 \<and> (0::nat) < 16
   \<and> tanh (replicate 96 1 ! (0 mod 96) * 15 :: real) < 1 - 1 / 2 ^ 54
   \<and> 1 - 1 / 2 ^ 54 \<le> tanh (replicate 96 2 ! (0 mod 96) * 15 :: real)
   \<and> noteIndex (getVoiceMelody_svc (map Num (replicate 96 1)) 0 16 ! 0) = Num 6
   \<and> octaveShift (getVoiceMelody_svc (map Num (replicate 96 1)) 0 16 ! 0) = Num 1
   \<and> velocity (getVoiceMelody_svc (map Num (replicate 96 1)) 0 16 ! 0) = Num 1
   \<and> noteIndex (getVoiceMelody_root (map Num (replicate 96 1)) 0 16 ! 0) = Num 6
   \<and> noteIndex (getVoiceMelody_svc (map Num (replicate 96 2)) 0 16 ! 0) = Num 0
   \<and> octaveShift (getVoiceMelody_svc (map Num (replicate 96 2)) 0 16 ! 0) = Num 2
   \<and> octaveShift (getVoiceMelody_root (map Num (replicate 96 2)) 0 16 ! 0) = Num 2"
proof -
  have l: "length (replicate 96 (1::real)) = 96" "length (replicate 96 (2::real)) = 96"
    "(0::nat) \<le> 3"
    by simp_all
  have t1: "tanh (replicate 96 1 ! (0 mod 96) * 15 :: real) < 1 - 1 / 2 ^ 54"
    using tanh_15_upper by simp
  have t2: "1 - 1 / 2 ^ 54 \<le> tanh (replicate 96 2 ! (0 mod 96) * 15 :: real)"
    using tanh_30 by simp
  have v: "spec_velocity (replicate 96 1 ! (0 mod 96)) = 1"
    by (simp add: spec_velocity_def clamp_def)
  have z: "(0::nat) < 16" by simp
  note A = getVoiceMelody_sixteen_notes [OF l(1) l(3), THEN conjunct2, THEN conjunct2,
      rule_format, OF z]
  note B = getVoiceMelody_sixteen_notes [OF l(2) l(3), THEN conjunct2, THEN conjunct2,
      rule_format, OF z]
  note As = A [OF disjI1 [OF refl]] and Ar = A [OF disjI2 [OF refl]]
  note Bs = B [OF disjI1 [OF refl]] and Br = B [OF disjI2 [OF refl]]
  note r1 = As [THEN conjunct2, THEN conjunct2, THEN conjunct2, THEN conjunct2, THEN conjunct2,
      THEN conjunct2, THEN conjunct2, THEN conjunct1, THEN mp, OF t1]
  note r2 = Ar [THEN conjunct2, THEN conjunct2, THEN conjunct2, THEN conjunct2, THEN conjunct2,
      THEN conjunct2, THEN conjunct2, THEN conjunct1, THEN mp, OF t1]
  note r3 = As [THEN conjunct2, THEN conjunct2, THEN conjunct2, THEN conjunct2, THEN conjunct1]
  have a1: "noteIndex (getVoiceMelody_svc (map Num (replicate 96 1)) 0 16 ! 0) = Num 6
      \<and> octaveShift (getVoiceMelody_svc (map Num (replicate 96 1)) 0 16 ! 0) = Num 1
      \<and> velocity (getVoiceMelody_svc (map Num (replicate 96 1)) 0 16 ! 0) = Num 1"
    unfolding r1 [THEN conjunct1] r1 [THEN conjunct2] r3
    using spec_at_1 v by simp
  have a2: "noteIndex (getVoiceMelody_root (map Num (replicate 96 1)) 0 16 ! 0) = Num 6"
    unfolding r2 [THEN conjunct1] using spec_at_1 by simp
  have b1: "noteIndex (getVoiceMelody_svc (map Num (replicate 96 2)) 0 16 ! 0) = Num 0
      \<and> octaveShift (getVoiceMelody_svc (map Num (replicate 96 2)) 0 16 ! 0) = Num 2"
    by (rule Bs [THEN conjunct2, THEN conjunct2, THEN conjunct2, THEN conjunct2, THEN conjunct2,
      THEN conjunct2, THEN conjunct2, THEN conjunct2, THEN mp, OF t2])
  have b2: "octaveShift (getVoiceMelody_root (map Num (replicate 96 2)) 0 16 ! 0) = Num 2"
    by (rule Br [THEN conjunct2, THEN conjunct2, THEN conjunct2, THEN conjunct2, THEN conjunct2,
      THEN conjunct2, THEN conjunct2, THEN conjunct2, THEN mp, OF t2, THEN conjunct2])
  show ?thesis
    using l z t1 t2 a1 a2 b1 b2 by (intro conjI) (simp_all only: simp_thms)
qed

section \<open>Tempo\<close>

lemma fold_sumSqr_Num:
  "fold (\<lambda>v s. js_add s (js_mul v v)) (map Num xs) (Num a) = Num (a + (\<Sum>x\<leftarrow>xs. x * x))"
  by (induction xs arbitrary: a) (simp_all add: add.assoc)

lemma sumSqr_Num: "sumSqr (map Num xs) = Num (\<Sum>x\<leftarrow>xs. x * x)"
  by (simp add: sumSqr_def fold_sumSqr_Num)

lemma sum_squares_nonneg: "0 \<le> (\<Sum>x\<leftarrow>xs. x * x :: real)"
  by (induction xs) simp_all

lemma bpm_value_Num: "bpm_value (map Num xs) = Num (spec_tempo xs)"
proof -
  let ?S = "\<Sum>x\<leftarrow>xs. x * x"
  have n: "\<not> ?S < 0"
    using sum_squares_nonneg [of xs] by simp
  have t: "targetBpm (map Num xs) = Num (60 + sqrt ?S * 250)"
    using n by (simp add: targetBpm_def sumSqr_Num)
  have "bpm_value (map Num xs) = Num (min 160 (max 50 (60 + sqrt ?S * 250)))"
    unfolding bpm_value_def t by (simp only: Math_min.simps Math_max.simps)
  also have "min 160 (max 50 (60 + sqrt ?S * 250)) = clamp (60 + sqrt ?S * 250) 50 160"
    by (rule min_max_clamp) simp
  finally show ?thesis
    by (simp add: spec_tempo_def magnitude_def)
qed

lemma magnitude_nonneg: "0 \<le> magnitude v"
  by (simp add: magnitude_def sum_squares_nonneg)

lemma magnitude_zeros: "magnitude (replicate n 0) = 0"
  by (simp add: magnitude_def sum_list_replicate)

lemma spec_tempo_range: "50 \<le> spec_tempo v \<and> spec_tempo v \<le> 160"
  using clamp_bounds [of 50 160 "60 + magnitude v * 250"] by (simp add: spec_tempo_def)

lemma spec_tempo_mono: "magnitude v \<le> magnitude w \<Longrightarrow> spec_tempo v \<le> spec_tempo w"
  unfolding spec_tempo_def by (rule clamp_mono) simp_all

lemma transport_bpm_play_svc: "transport_bpm (play_svc v p e) = bpm_value v"
  by (simp add: play_svc_def Let_def)

lemma transport_bpm_play_root: "transport_bpm (play_root v p e) = bpm_value v"
  by (simp add: play_root_def Let_def)

text \<open>
  C3: for a vector of 384 reals \<open>play\<close> sets the tempo to
  \<open>clamp(60 + ||v|| * 250, 50, 160)\<close>, with \<open>||v||\<close> the Euclidean magnitude. The tempo
  lies in 50..160, does not decrease when the magnitude grows, is 60 for the all-zeros
  vector and 160 for a vector of magnitude 0.4.
\<close>

theorem play_tempo:
  fixes v w :: "real list"
  assumes "length v = 384" and "length w = 384"
  shows "transport_bpm (play_svc (map Num v) p e) = Num (spec_tempo v)
       \<and> transport_bpm (play_root (map Num v) p e) = Num (spec_tempo v)
       \<and> transport_bpm (play_svc (map Num w) p e) = Num (spec_tempo w)
       \<and> transport_bpm (play_root (map Num w) p e) = Num (spec_tempo w)
       \<and> 50 \<le> spec_tempo v \<and> spec_tempo v \<le> 160
       \<and> (magnitude v \<le> magnitude w \<longrightarrow> spec_tempo v \<le> spec_tempo w)
       \<and> (v = replicate 384 0 \<longrightarrow>
             transport_bpm (play_svc (map Num v) p e) = Num 60
           \<and> transport_bpm (play_root (map Num v) p e) = Num 60)
       \<and> (magnitude v = 0.4 \<longrightarrow>
             transport_bpm (play_svc (map Num v) p e) = Num 160
           \<and> transport_bpm (play_root (map Num v) p e) = Num 160)"
proof -
  have s: "transport_bpm (play_svc (map Num u) p e) = Num (spec_tempo u)" for u
    by (simp add: transport_bpm_play_svc bpm_value_Num)
  have r: "transport_bpm (play_root (map Num u) p e) = Num (spec_tempo u)" for u
    by (simp add: transport_bpm_play_root bpm_value_Num)
  have z: "v = replicate 384 0 \<longrightarrow> spec_tempo v = 60"
    by (simp add: spec_tempo_def magnitude_zeros clamp_def)
  have m: "magnitude v = 0.4 \<longrightarrow> spec_tempo v = 160"
    by (simp add: spec_tempo_def clamp_def)
  show ?thesis
    unfolding s r
    using z m spec_tempo_range [of v] spec_tempo_mono [of v w] by blast
qed

lemma magnitude_one_entry:
  assumes "k < n"
  shows "magnitude ((replicate n 0)[k := x]) = \<bar>x\<bar>"
proof -
  have "(\<Sum>y\<leftarrow>(replicate n 0)[k := x]. y * y) = x * x"
    using assms
  proof (induction n arbitrary: k)
    case 0
    then show ?case by simp
  next
    case (Suc n)
    then show ?case
      by (cases k) (simp_all add: sum_list_replicate)
  qed
  then show ?thesis
    by (simp add: magnitude_def)
qed

theorem play_tempo_witness:
  "length (replicate 384 (0::real)) = 384 \<and> length ((replicate 384 (0::real))[0 := 0.4]) = 384
   \<and> magnitude (replicate 384 0) \<le> magnitude ((replicate 384 0)[0 := 0.4])
   \<and> magnitude ((replicate 384 0)[0 := 0.4]) = 0.4
   \<and> transport_bpm (play_svc (map Num (replicate 384 0)) Start new_engine) = Num 60
   \<and> transport_bpm (play_root (map Num (replicate 384 0)) Start new_engine) = Num 60
   \<and> transport_bpm (play_svc (map Num ((replicate 384 0)[0 := 0.4])) Start new_engine) = Num 160
   \<and> transport_bpm (play_root (map Num ((replicate 384 0)[0 := 0.4])) Start new_engine) = Num 160"
proof -
  have m: "magnitude ((replicate 384 0)[0 := 2 / 5]) = 2 / 5"
    by (simp add: magnitude_one_entry)
  have z: "magnitude (replicate 384 0) = 0"
    by (rule magnitude_zeros)
  have t: "spec_tempo (replicate 384 0) = 60"
    by (simp add: spec_tempo_def z clamp_def)
  show ?thesis
    using play_tempo [of "replicate 384 0" "(replicate 384 0)[0 := 0.4]" Start new_engine]
      play_tempo [of "(replicate 384 0)[0 := 0.4]" "replicate 384 0" Start new_engine]
    by (simp add: m z t)
qed

section \<open>What play reads of the vector\<close>

lemma currentMelodies_play_svc:
  "currentMelodies (play_svc v p e) =
     [getVoiceMelody_svc (slice v 0 96) 0 16, getVoiceMelody_svc (slice v 96 192) 1 16,
      getVoiceMelody_svc (slice v 192 288) 2 16, getVoiceMelody_svc (slice v 288 384) 3 16]"
  by (simp add: play_svc_def Let_def)

lemma currentMelodies_play_root:
  "currentMelodies (play_root v p e) =
     [getVoiceMelody_root (slice v 0 96) 0 16, getVoiceMelody_root (slice v 96 192) 1 16,
      getVoiceMelody_root (slice v 192 288) 2 16, getVoiceMelody_root (slice v 288 384) 3 16]"
  by (simp add: play_root_def Let_def)


lemma at_mod_slice:
  assumes "a + 96 \<le> length v" and "i < 96"
  shows "at_mod (slice v a (a + 96)) i = v ! (a + i)"
proof -
  have l: "length (slice v a (a + 96)) = 96"
    using assms(1) by (simp add: slice_def)
  have "slice v a (a + 96) ! i = v ! (a + i)"
    using assms by (simp add: slice_def)
  with l assms(2) show ?thesis
    by (simp add: at_mod_def)
qed

lemma melody_svc_cong:
  assumes "\<forall>i<n. at_mod s i = at_mod s' i"
  shows "getVoiceMelody_svc s k n = getVoiceMelody_svc s' k n"
  unfolding getVoiceMelody_svc_map
  by (rule map_cong [OF refl]) (use assms in \<open>simp add: note_svc_def\<close>)

lemma melody_root_cong:
  assumes "\<forall>i<n. at_mod s i = at_mod s' i"
  shows "getVoiceMelody_root s k n = getVoiceMelody_root s' k n"
  unfolding getVoiceMelody_root_map
  by (rule map_cong [OF refl]) (use assms in \<open>simp add: note_root_def\<close>)

lemma slices_agree:
  assumes "length v = 384" and "length w = 384" and "a + 96 \<le> 384"
    and "\<And>i. i < 16 \<Longrightarrow> v ! (a + i) = w ! (a + i)"
  shows "\<forall>i<16. at_mod (slice v a (a + 96)) i = at_mod (slice w a (a + 96)) i"
proof (intro allI impI)
  fix i :: nat
  assume i: "i < 16"
  then have i96: "i < 96" by simp
  have "at_mod (slice v a (a + 96)) i = v ! (a + i)"
    by (rule at_mod_slice) (use assms(1,3) i96 in simp_all)
  moreover have "at_mod (slice w a (a + 96)) i = w ! (a + i)"
    by (rule at_mod_slice) (use assms(2,3) i96 in simp_all)
  ultimately show "at_mod (slice v a (a + 96)) i = at_mod (slice w a (a + 96)) i"
    using assms(4) [OF i] by simp
qed


text \<open>
  C9: two vectors of width 384 that agree at the indices 0-15, 96-111, 192-207 and
  288-303 give the same four melodies: with 16 steps the generator reads only the first
  16 numbers of each slice of 96.
\<close>

theorem melodies_read_sixteen_per_slice:
  assumes "length v = 384" and "length w = 384"
    and "\<forall>i<16. v ! i = w ! i \<and> v ! (96 + i) = w ! (96 + i)
                \<and> v ! (192 + i) = w ! (192 + i) \<and> v ! (288 + i) = w ! (288 + i)"
  shows "currentMelodies (play_svc v p e) = currentMelodies (play_svc w p e)
       \<and> currentMelodies (play_root v p e) = currentMelodies (play_root w p e)"
proof -
  have s0: "\<forall>i<16. at_mod (slice v 0 96) i = at_mod (slice w 0 96) i"
    using slices_agree [of v w 0] assms by simp
  have s1: "\<forall>i<16. at_mod (slice v 96 192) i = at_mod (slice w 96 192) i"
    using slices_agree [of v w 96] assms by simp
  have s2: "\<forall>i<16. at_mod (slice v 192 288) i = at_mod (slice w 192 288) i"
    using slices_agree [of v w 192] assms by simp
  have s3: "\<forall>i<16. at_mod (slice v 288 384) i = at_mod (slice w 288 384) i"
    using slices_agree [of v w 288] assms by simp
  show ?thesis
    unfolding currentMelodies_play_svc currentMelodies_play_root
    using melody_svc_cong [OF s0] melody_svc_cong [OF s1] melody_svc_cong [OF s2]
      melody_svc_cong [OF s3] melody_root_cong [OF s0] melody_root_cong [OF s1]
      melody_root_cong [OF s2] melody_root_cong [OF s3]
    by simp
qed

theorem melodies_read_sixteen_per_slice_witness:
  "length (replicate 384 (Num 0)) = 384 \<and> length ((replicate 384 (Num 0))[16 := Num 1]) = 384
   \<and> take 16 (replicate 384 (Num 0)) = take 16 ((replicate 384 (Num 0))[16 := Num 1])
   \<and> replicate 384 (Num 0) ! 16 \<noteq> (replicate 384 (Num 0))[16 := Num 1] ! 16
   \<and> currentMelodies (play_svc (replicate 384 (Num 0)) Start new_engine)
       = currentMelodies (play_svc ((replicate 384 (Num 0))[16 := Num 1]) Start new_engine)
   \<and> currentMelodies (play_root (replicate 384 (Num 0)) Start new_engine)
       = currentMelodies (play_root ((replicate 384 (Num 0))[16 := Num 1]) Start new_engine)
   \<and> transport_bpm (play_svc (replicate 384 (Num 0)) Start new_engine) = Num 60
   \<and> transport_bpm (play_svc ((replicate 384 (Num 0))[16 := Num 1]) Start new_engine) = Num 160"
proof -
  have e1: "(replicate 384 (Num 0))[16 := Num 1] = map Num ((replicate 384 0)[16 := 1])"
    by (simp add: map_update)
  have e0: "replicate 384 (Num 0) = map Num (replicate 384 0)"
    by simp
  have s: "spec_tempo ((replicate 384 0)[16 := 1]) = 160" "spec_tempo (replicate 384 0) = 60"
    by (simp_all add: spec_tempo_def magnitude_one_entry magnitude_zeros clamp_def)
  have t0: "transport_bpm (play_svc (replicate 384 (Num 0)) Start new_engine) = Num 60"
    unfolding e0 using s(2) by (simp only: transport_bpm_play_svc bpm_value_Num)
  have t1: "transport_bpm (play_svc ((replicate 384 (Num 0))[16 := Num 1]) Start new_engine) = Num 160"
    unfolding e1 using s(1) by (simp only: transport_bpm_play_svc bpm_value_Num)
  have h: "\<forall>i<16. replicate 384 (Num 0) ! i = (replicate 384 (Num 0))[16 := Num 1] ! i
        \<and> replicate 384 (Num 0) ! (96 + i) = (replicate 384 (Num 0))[16 := Num 1] ! (96 + i)
        \<and> replicate 384 (Num 0) ! (192 + i) = (replicate 384 (Num 0))[16 := Num 1] ! (192 + i)
        \<and> replicate 384 (Num 0) ! (288 + i) = (replicate 384 (Num 0))[16 := Num 1] ! (288 + i)"
    by simp
  have l: "length (replicate 384 (Num 0)) = 384"
    "length ((replicate 384 (Num 0))[16 := Num 1]) = 384"
    by simp_all
  show ?thesis
    using melodies_read_sixteen_per_slice [OF l h, of Start new_engine] t0 t1 by simp
qed

lemma gate_svc_Num:
  assumes "xs \<noteq> []" and "i < n"
  shows "gate (getVoiceMelody_svc (map Num xs) k n ! i)
          = (0.4 + real k * 0.1 < \<bar>xs ! (i mod length xs) * 25\<bar>)"
  using assms by (simp add: nth_getVoiceMelody_svc note_svc_Num)

lemma gate_root_Num:
  assumes "xs \<noteq> []" and "i < n"
  shows "gate (getVoiceMelody_root (map Num xs) k n ! i)
          = (0.5 + real k * 0.1 < \<bar>xs ! (i mod length xs) * 25\<bar>)"
  using assms by (simp add: nth_getVoiceMelody_root note_root_Num)

text \<open>
  C4, as stated, fails for the generator of \<open>src/musicEngine.ts\<close>, whose base
  threshold is 0.5: at \<open>val = 0.018\<close> and voice 0, \<open>|val * 25| = 0.45\<close> exceeds 0.4 and
  the gate is false.
\<close>

theorem gate_threshold_counterexample:
  "\<not> (gate (getVoiceMelody_root (map Num (replicate 96 0.018)) 0 16 ! 0)
       \<longleftrightarrow> 0.4 + real (0::nat) * 0.1 < \<bar>(replicate 96 (0.018::real)) ! (0 mod 96) * 25\<bar>)"
  using gate_root_Num [of "replicate 96 0.018" 0 16 0] by simp

text \<open>
  C4, amended: for a slice of 96 reals, a voice index from 0 to 3 and a step \<open>i\<close> below
  16, with \<open>val = slice[i mod 96]\<close>, the gate is true exactly when
  \<open>|val * 25| > base + voiceIndex * 0.1\<close>, where \<open>base\<close> is 0.4 in
  \<open>src/services/musicEngine.ts\<close> and 0.5 in \<open>src/musicEngine.ts\<close>. In both the
  threshold rises with the voice index (a gate open for a voice is open for every lower
  voice on the same slice), and for the all-zeros slice the gate is false.
\<close>

theorem gate_thresholds:
  fixes xs :: "real list"
  assumes "length xs = 96" and "voiceIdx \<le> 3" and "i < 16"
  shows "(gate (getVoiceMelody_svc (map Num xs) voiceIdx 16 ! i)
            \<longleftrightarrow> 0.4 + real voiceIdx * 0.1 < \<bar>xs ! (i mod 96) * 25\<bar>)
       \<and> (gate (getVoiceMelody_root (map Num xs) voiceIdx 16 ! i)
            \<longleftrightarrow> 0.5 + real voiceIdx * 0.1 < \<bar>xs ! (i mod 96) * 25\<bar>)
       \<and> (\<forall>k\<le>voiceIdx. (gate (getVoiceMelody_svc (map Num xs) voiceIdx 16 ! i)
                            \<longrightarrow> gate (getVoiceMelody_svc (map Num xs) k 16 ! i))
                        \<and> (gate (getVoiceMelody_root (map Num xs) voiceIdx 16 ! i)
                            \<longrightarrow> gate (getVoiceMelody_root (map Num xs) k 16 ! i)))
       \<and> (xs = replicate 96 0 \<longrightarrow>
             \<not> gate (getVoiceMelody_svc (map Num xs) voiceIdx 16 ! i)
           \<and> \<not> gate (getVoiceMelody_root (map Num xs) voiceIdx 16 ! i))"
proof -
  from assms(1) have ne: "xs \<noteq> []" by auto
  have s: "gate (getVoiceMelody_svc (map Num xs) k 16 ! i)
            \<longleftrightarrow> 0.4 + real k * 0.1 < \<bar>xs ! (i mod 96) * 25\<bar>" for k
    using gate_svc_Num [OF ne assms(3), of k] assms(1) by simp
  have r: "gate (getVoiceMelody_root (map Num xs) k 16 ! i)
            \<longleftrightarrow> 0.5 + real k * 0.1 < \<bar>xs ! (i mod 96) * 25\<bar>" for k
    using gate_root_Num [OF ne assms(3), of k] assms(1) by simp
  have z: "xs = replicate 96 0 \<Longrightarrow> xs ! (i mod 96) = 0"
    by simp
  show ?thesis
    unfolding s r using z by auto
qed

theorem gate_thresholds_witness:
  "length (replicate 96 (0.02::real)) = 96 \<and> (1::nat) \<le> 3 \<and> (0::nat) < 16 \<and> (0::nat) \<le> 1
   \<and> gate (getVoiceMelody_svc (map Num (replicate 96 0.02)) 0 16 ! 0)
   \<and> \<not> gate (getVoiceMelody_svc (map Num (replicate 96 0.02)) 1 16 ! 0)
   \<and> \<not> gate (getVoiceMelody_root (map Num (replicate 96 0.02)) 0 16 ! 0)
   \<and> \<not> gate (getVoiceMelody_svc (map Num (replicate 96 0)) 1 16 ! 0)
   \<and> \<not> gate (getVoiceMelody_root (map Num (replicate 96 0)) 1 16 ! 0)"
  using gate_thresholds [of "replicate 96 0.02" 0 0] gate_thresholds [of "replicate 96 0.02" 1 0]
    gate_thresholds [of "replicate 96 0" 1 0]
  by simp


section \<open>stop, play and the phase observer\<close>

lemma notify_fields [simp]:
  "onPhaseChange (notify p e) = onPhaseChange e"
  "currentPhase (notify p e) = currentPhase e"
  "loop (notify p e) = loop e"
  "samplers (notify p e) = samplers e"
  "fallbacks (notify p e) = fallbacks e"
  "loadedStates (notify p e) = loadedStates e"
  "currentMelodies (notify p e) = currentMelodies e"
  "transport_started (notify p e) = transport_started e"
  "transport_bpm (notify p e) = transport_bpm e"
  "isInitialized (notify p e) = isInitialized e"
  by (simp_all add: notify_def split: option.split)

lemma notified_notify:
  "notified (notify p e) = notified e @ (case onPhaseChange e of None \<Rightarrow> [] | Some cb \<Rightarrow> [(cb, p)])"
  by (simp add: notify_def split: option.split)

lemma stop_svc_fields:
  "onPhaseChange (stop_svc e) = onPhaseChange e"
  "currentPhase (stop_svc e) = Idle"
  "loop (stop_svc e) = None"
  "samplers (stop_svc e) = samplers e"
  "fallbacks (stop_svc e) = fallbacks e"
  "loadedStates (stop_svc e) = loadedStates e"
  "currentMelodies (stop_svc e) = currentMelodies e"
  "transport_started (stop_svc e) = False"
  "transport_bpm (stop_svc e) = transport_bpm e"
  "notified (stop_svc e) = notified e @ (case onPhaseChange e of None \<Rightarrow> [] | Some cb \<Rightarrow> [(cb, Idle)])"
  by (simp_all add: stop_svc_def notified_notify)

lemma stop_root_fields:
  "onPhaseChange (stop_root e) = onPhaseChange e"
  "currentPhase (stop_root e) = Idle"
  "loop (stop_root e) = None"
  "samplers (stop_root e) = (\<lambda>v. map_option (\<lambda>s. s\<lparr>calls := calls s @ [ReleaseAll None]\<rparr>) (samplers e v))"
  "fallbacks (stop_root e) = (\<lambda>v. map_option (\<lambda>f. f @ [ReleaseAll None]) (fallbacks e v))"
  "loadedStates (stop_root e) = loadedStates e"
  "currentMelodies (stop_root e) = currentMelodies e"
  "transport_started (stop_root e) = False"
  "transport_bpm (stop_root e) = transport_bpm e"
  "notified (stop_root e) = notified e @ (case onPhaseChange e of None \<Rightarrow> [] | Some cb \<Rightarrow> [(cb, Idle)])"
  by (simp_all add: stop_root_def notified_notify releaseAll_fallbacks_def releaseAll_samplers_def)

lemma play_svc_fields:
  "onPhaseChange (play_svc v p e) = onPhaseChange e"
  "currentPhase (play_svc v p e) = p"
  "loop (play_svc v p e) = Some 0"
  "samplers (play_svc v p e) = samplers e"
  "fallbacks (play_svc v p e) = fallbacks e"
  "loadedStates (play_svc v p e) = loadedStates e"
  "transport_started (play_svc v p e) = True"
  "notified (play_svc v p e) =
     notified e @ (case onPhaseChange e of None \<Rightarrow> [] | Some cb \<Rightarrow> [(cb, Idle), (cb, p)])"
  by (simp_all add: play_svc_def Let_def stop_svc_fields notified_notify split: option.split)

lemma play_root_fields:
  "onPhaseChange (play_root v p e) = onPhaseChange e"
  "currentPhase (play_root v p e) = p"
  "loop (play_root v p e) = Some 0"
  "samplers (play_root v p e) = samplers (stop_root e)"
  "fallbacks (play_root v p e) = fallbacks (stop_root e)"
  "loadedStates (play_root v p e) = loadedStates e"
  "transport_started (play_root v p e) = True"
  "notified (play_root v p e) =
     notified e @ (case onPhaseChange e of None \<Rightarrow> [] | Some cb \<Rightarrow> [(cb, Idle), (cb, p)])"
  by (simp_all add: play_root_def Let_def stop_root_fields notified_notify split: option.split)

text \<open>
  C6, as stated, fails: \<open>play(v, 'start')\<close> then \<open>play(v, 'end')\<close> on a new engine
  with an observer does not notify exactly \<open>start\<close>, \<open>end\<close>.
\<close>

theorem restart_notifications_counterexample:
  "notified (play_svc (replicate 384 (Num 0)) End
       (play_svc (replicate 384 (Num 0)) Start (setPhaseCallback 0 new_engine)))
     \<noteq> [(0, Start), (0, End)]
   \<and> notified (play_root (replicate 384 (Num 0)) End
       (play_root (replicate 384 (Num 0)) Start (setPhaseCallback 0 new_engine)))
     \<noteq> [(0, Start), (0, End)]"
  by (simp add: play_svc_fields play_root_fields setPhaseCallback_def new_engine_def)

text \<open>
  C6, amended: for every vector \<open>v\<close>, \<open>play(v, 'start')\<close> then \<open>play(v, 'end')\<close> gives
  the registered observer four notifications, in the order \<open>idle\<close>, \<open>start\<close>,
  \<open>idle\<close>, \<open>end\<close>: the \<open>stop\<close> inside each \<open>play\<close> notifies \<open>idle\<close> before the
  phase of the call is notified.
\<close>

theorem restart_notifications:
  assumes "onPhaseChange e = Some cb"
  shows "notified (play_svc v End (play_svc v Start e))
           = notified e @ [(cb, Idle), (cb, Start), (cb, Idle), (cb, End)]
       \<and> notified (play_root v End (play_root v Start e))
           = notified e @ [(cb, Idle), (cb, Start), (cb, Idle), (cb, End)]"
  using assms by (simp add: play_svc_fields play_root_fields)

theorem restart_notifications_witness:
  "onPhaseChange (setPhaseCallback 0 new_engine) = Some 0
   \<and> notified (play_svc (replicate 384 (Num 0)) End
         (play_svc (replicate 384 (Num 0)) Start (setPhaseCallback 0 new_engine)))
       = [(0, Idle), (0, Start), (0, Idle), (0, End)]
   \<and> notified (play_root (replicate 384 (Num 0)) End
         (play_root (replicate 384 (Num 0)) Start (setPhaseCallback 0 new_engine)))
       = [(0, Idle), (0, Start), (0, Idle), (0, End)]"
proof -
  have h: "onPhaseChange (setPhaseCallback 0 new_engine) = Some 0"
    by (simp add: setPhaseCallback_def)
  have n: "notified (setPhaseCallback 0 new_engine) = []"
    by (simp add: setPhaseCallback_def new_engine_def)
  show ?thesis
    using restart_notifications [OF h, of "replicate 384 (Num 0)"] h n by simp
qed

lemma no_NaN_reals: "NaN \<notin> set v \<Longrightarrow> \<exists>xs. v = map Num xs"
proof (induction v)
  case Nil
  then show ?case by simp
next
  case (Cons x v)
  then obtain xs where xs: "v = map Num xs" by auto
  from Cons.prems obtain r where r: "x = Num r" by (cases x) auto
  have "x # v = map Num (r # xs)" using xs r by simp
  then show ?case by (rule exI)
qed

lemma bpm_value_no_NaN:
  assumes "NaN \<notin> set v"
  shows "\<exists>t. bpm_value v = Num t \<and> 50 \<le> t \<and> t \<le> 160"
proof -
  from no_NaN_reals [OF assms] obtain xs where "v = map Num xs" by blast
  then show ?thesis
    using bpm_value_Num [of xs] spec_tempo_range [of xs] by auto
qed

text \<open>
  C7, as stated, fails: \<open>play\<close> on a vector of width 1, and on a vector of 384
  \<open>NaN\<close>, changes the current phase (and, for the first, installs a loop and starts the
  transport).
\<close>

theorem play_validates_nothing_counterexample:
  "length [Num 0] \<noteq> 384
   \<and> currentPhase (play_svc [Num 0] Start new_engine) \<noteq> currentPhase new_engine
   \<and> loop (play_svc [Num 0] Start new_engine) \<noteq> loop new_engine
   \<and> transport_started (play_svc [Num 0] Start new_engine) \<noteq> transport_started new_engine
   \<and> currentPhase (play_root [Num 0] Start new_engine) \<noteq> currentPhase new_engine
   \<and> loop (play_root [Num 0] Start new_engine) \<noteq> loop new_engine
   \<and> NaN \<in> set (replicate 384 NaN)
   \<and> currentPhase (play_svc (replicate 384 NaN) Start new_engine) \<noteq> currentPhase new_engine
   \<and> currentPhase (play_root (replicate 384 NaN) Start new_engine) \<noteq> currentPhase new_engine"
  by (simp add: play_svc_fields play_root_fields new_engine_def)

text \<open>
  C7, amended: \<open>play\<close> does not validate its vector and has no error path of its own.
  For every vector, of any width and with or without \<open>NaN\<close>, it sets the current phase
  to the requested one, notifies the observer (\<open>idle\<close>, then the phase) and stores four
  melodies of 16 steps; for every vector without \<open>NaN\<close>, of any width, it also sets a
  tempo in 50..160, installs a new loop at step 0 and starts the transport.
\<close>

theorem play_validates_nothing:
  "currentPhase (play_svc v p e) = p
   \<and> map length (currentMelodies (play_svc v p e)) = [16, 16, 16, 16]
   \<and> notified (play_svc v p e) =
        notified e @ (case onPhaseChange e of None \<Rightarrow> [] | Some cb \<Rightarrow> [(cb, Idle), (cb, p)])
   \<and> currentPhase (play_root v p e) = p
   \<and> map length (currentMelodies (play_root v p e)) = [16, 16, 16, 16]
   \<and> notified (play_root v p e) =
        notified e @ (case onPhaseChange e of None \<Rightarrow> [] | Some cb \<Rightarrow> [(cb, Idle), (cb, p)])
   \<and> (NaN \<notin> set v \<longrightarrow>
          loop (play_svc v p e) = Some 0 \<and> transport_started (play_svc v p e)
        \<and> loop (play_root v p e) = Some 0 \<and> transport_started (play_root v p e)
        \<and> (\<exists>t. transport_bpm (play_svc v p e) = Num t \<and> transport_bpm (play_root v p e) = Num t
               \<and> 50 \<le> t \<and> t \<le> 160))"
  using bpm_value_no_NaN [of v]
  by (simp add: play_svc_fields play_root_fields currentMelodies_play_svc
      currentMelodies_play_root length_getVoiceMelody_svc length_getVoiceMelody_root
      transport_bpm_play_svc transport_bpm_play_root)

theorem play_validates_nothing_witness:
  "length [Num 0] \<noteq> 384 \<and> NaN \<notin> set [Num 0]
   \<and> currentPhase (play_svc [Num 0] Start new_engine) = Start
   \<and> map length (currentMelodies (play_svc [Num 0] Start new_engine)) = [16, 16, 16, 16]
   \<and> loop (play_svc [Num 0] Start new_engine) = Some 0
   \<and> transport_started (play_svc [Num 0] Start new_engine)
   \<and> loop (play_root [Num 0] Start new_engine) = Some 0
   \<and> transport_bpm (play_svc [Num 0] Start new_engine) = Num 60"
proof -
  have b: "bpm_value [Num 0] = Num 60"
    by (simp add: bpm_value_def targetBpm_def sumSqr_def)
  show ?thesis
    using play_validates_nothing [of "[Num 0]" Start new_engine] b
    by (simp add: transport_bpm_play_svc)
qed


section \<open>The loop callback\<close>

lemma sampler_call_config: "config (sampler_call v c e) = config e"
  by (auto simp add: config_def sampler_call_def fun_eq_iff split: option.split)

lemma fallback_call_config: "config (fallback_call v c e) = config e"
  by (auto simp add: config_def fallback_call_def fun_eq_iff split: option.split)

lemma sampler_call_loop: "loop (sampler_call v c e) = loop e"
  by (simp add: sampler_call_def split: option.split)

lemma fallback_call_loop: "loop (fallback_call v c e) = loop e"
  by (simp add: fallback_call_def split: option.split)

lemma sampler_calls_sampler_call:
  "sampler_calls (sampler_call v c e) w =
     (if w = v \<and> samplers e v \<noteq> None then sampler_calls e v @ [c] else sampler_calls e w)"
  by (auto simp add: sampler_calls_def sampler_call_def split: option.split)

lemma fallback_calls_sampler_call:
  "fallback_calls (sampler_call v c e) w = fallback_calls e w"
  by (simp add: fallback_calls_def sampler_call_def split: option.split)

lemma fallback_calls_fallback_call:
  "fallback_calls (fallback_call v c e) w =
     (if w = v \<and> fallbacks e v \<noteq> None then fallback_calls e v @ [c] else fallback_calls e w)"
  by (auto simp add: fallback_calls_def fallback_call_def split: option.split)

lemma sampler_calls_fallback_call:
  "sampler_calls (fallback_call v c e) w = sampler_calls e w"
  by (simp add: sampler_calls_def fallback_call_def split: option.split)

lemma config_noteData_at: "config e' = config e \<Longrightarrow> noteData_at e' i step = noteData_at e i step"
  by (simp add: config_def noteData_at_def)

lemma config_ready_svc: "config e' = config e \<Longrightarrow> ready_svc e' v = ready_svc e v"
proof -
  assume "config e' = config e"
  then have "map_option loaded (samplers e' v) = map_option loaded (samplers e v)"
    by (simp add: config_def fun_eq_iff)
  then show ?thesis
    by (cases "samplers e' v"; cases "samplers e v") (simp_all add: ready_svc_def)
qed

lemma config_ready_root: "config e' = config e \<Longrightarrow> ready_root e' v = ready_root e v"
proof -
  assume c: "config e' = config e"
  then have "map_option loaded (samplers e' v) = map_option loaded (samplers e v)"
    by (simp add: config_def fun_eq_iff)
  then have "samplers e' v = None \<longleftrightarrow> samplers e v = None"
    by (cases "samplers e' v"; cases "samplers e v") simp_all
  moreover from c have "loadedStates e' = loadedStates e"
    by (simp add: config_def)
  ultimately show ?thesis
    by (simp add: ready_root_def)
qed

lemma config_fallback_None: "config e' = config e \<Longrightarrow> fallbacks e' v = None \<longleftrightarrow> fallbacks e v = None"
  by (simp add: config_def fun_eq_iff)

lemma ready_svc_sampler: "ready_svc e v \<Longrightarrow> samplers e v \<noteq> None"
  by (cases "samplers e v") (simp_all add: ready_svc_def)

lemma ready_root_sampler: "ready_root e v \<Longrightarrow> samplers e v \<noteq> None"
  by (simp add: ready_root_def)

lemma voice_step_svc_effect:
  assumes "noteData_at e i step = Inr n"
  shows "\<exists>e'. voice_step_svc t step v i e = Inr e' \<and> config e' = config e \<and> loop e' = loop e
     \<and> (\<forall>w. w \<noteq> v \<longrightarrow> sampler_calls e' w = sampler_calls e w
                      \<and> fallback_calls e' w = fallback_calls e w)
     \<and> sampler_calls e' v = sampler_calls e v @
          (if (gate n \<or> step mod 4 = 0) \<and> ready_svc e v
           then [TriggerAttackRelease (finalNote n i) (durations_svc ! i) t (velocity n)] else [])
     \<and> fallback_calls e' v = fallback_calls e v @
          (if (gate n \<or> step mod 4 = 0) \<and> \<not> ready_svc e v \<and> fallbacks e v \<noteq> None
           then [TriggerAttackRelease (finalNote n i) (durations_svc ! i) t
                   (js_mul (velocity n) (Num 0.4))] else [])"
  using assms ready_svc_sampler [of e v]
  by (simp add: voice_step_svc_def sampler_call_config fallback_call_config sampler_call_loop
      fallback_call_loop sampler_calls_sampler_call fallback_calls_sampler_call
      fallback_calls_fallback_call sampler_calls_fallback_call)

lemma voice_step_root_effect:
  assumes "noteData_at e i step = Inr n"
  shows "\<exists>e'. voice_step_root t step v i e = Inr e' \<and> config e' = config e \<and> loop e' = loop e
     \<and> (\<forall>w. w \<noteq> v \<longrightarrow> sampler_calls e' w = sampler_calls e w
                      \<and> fallback_calls e' w = fallback_calls e w)
     \<and> sampler_calls e' v = sampler_calls e v @
          (if (gate n \<or> step mod 16 = 0) \<and> ready_root e v
           then [ReleaseAll (Some t),
                 TriggerAttackRelease (finalNote n i) (durations_root ! i) t (velocity n)] else [])
     \<and> fallback_calls e' v = fallback_calls e v @
          (if (gate n \<or> step mod 16 = 0) \<and> \<not> ready_root e v \<and> fallbacks e v \<noteq> None
           then [ReleaseAll (Some t),
                 TriggerAttackRelease (finalNote n i) (durations_root ! i) t
                   (js_mul (velocity n) (Num 0.5))] else [])"
proof -
  have s: "(samplers (sampler_call v c e) v = None) = (samplers e v = None)"
    "(\<exists>y. samplers (sampler_call v c e) v = Some y) = (\<exists>y. samplers e v = Some y)" for c
    by (simp_all add: sampler_call_def split: option.split)
  have f: "(fallbacks (fallback_call v c e) v = None) = (fallbacks e v = None)"
    "(\<exists>y. fallbacks (fallback_call v c e) v = Some y) = (\<exists>y. fallbacks e v = Some y)" for c
    by (simp_all add: fallback_call_def split: option.split)
  show ?thesis
    using assms ready_root_sampler [of e v]
    by (simp add: voice_step_root_def sampler_call_config fallback_call_config sampler_call_loop
        fallback_call_loop sampler_calls_sampler_call fallback_calls_sampler_call
        fallback_calls_fallback_call sampler_calls_fallback_call s f)
qed

lemma zip_voices: "zip voices [0..<length voices] = [(Bass, 0), (Tenor, 1), (Alto, 2), (Soprano, 3)]"
  by (simp add: voices_def upt_conv_Cons)

lemma noteData_at_Inr:
  assumes "config e' = config e" and "length (currentMelodies e) = 4"
    and "[] \<notin> set (currentMelodies e)" and "i < 4"
  shows "noteData_at e' i step
           = Inr (currentMelodies e ! i ! (step mod length (currentMelodies e ! i)))"
proof -
  have "currentMelodies e ! i \<in> set (currentMelodies e)"
    using assms(2,4) by simp
  then have "currentMelodies e ! i \<noteq> []"
    using assms(3) by metis
  moreover have "currentMelodies e' = currentMelodies e"
    using assms(1) by (simp add: config_def)
  ultimately show ?thesis
    using assms(2,4) by (simp add: noteData_at_def Let_def)
qed

lemma calls_loop_update:
  "sampler_calls (e\<lparr>loop := l\<rparr>) v = sampler_calls e v"
  "fallback_calls (e\<lparr>loop := l\<rparr>) v = fallback_calls e v"
  "config (e\<lparr>loop := l\<rparr>) = config e"
  by (simp_all add: sampler_calls_def fallback_calls_def config_def)

lemma tick_svc_effect:
  assumes l: "loop e = Some step" and m4: "length (currentMelodies e) = 4"
    and ne: "[] \<notin> set (currentMelodies e)"
  shows "\<exists>e'. tick_svc t e = Inr e' \<and> config e' = config e \<and> loop e' = Some (step + 1)
     \<and> (\<forall>v. sampler_calls e' v = sampler_calls e v @
            (if (gate (currentMelodies e ! voice_index v
                        ! (step mod length (currentMelodies e ! voice_index v)))
                 \<or> step mod 4 = 0) \<and> ready_svc e v
             then [TriggerAttackRelease
                     (finalNote (currentMelodies e ! voice_index v
                        ! (step mod length (currentMelodies e ! voice_index v))) (voice_index v))
                     (durations_svc ! voice_index v) t
                     (velocity (currentMelodies e ! voice_index v
                        ! (step mod length (currentMelodies e ! voice_index v))))]
             else [])
        \<and> fallback_calls e' v = fallback_calls e v @
            (if (gate (currentMelodies e ! voice_index v
                        ! (step mod length (currentMelodies e ! voice_index v)))
                 \<or> step mod 4 = 0) \<and> \<not> ready_svc e v \<and> fallbacks e v \<noteq> None
             then [TriggerAttackRelease
                     (finalNote (currentMelodies e ! voice_index v
                        ! (step mod length (currentMelodies e ! voice_index v))) (voice_index v))
                     (durations_svc ! voice_index v) t
                     (js_mul (velocity (currentMelodies e ! voice_index v
                        ! (step mod length (currentMelodies e ! voice_index v)))) (Num 0.4))]
             else []))"
proof -
  define n where "n i = currentMelodies e ! i ! (step mod length (currentMelodies e ! i))" for i
  define S where "S v i = (if (gate (n i) \<or> step mod 4 = 0) \<and> ready_svc e v
      then [TriggerAttackRelease (finalNote (n i) i) (durations_svc ! i) t (velocity (n i))]
      else [])" for v i
  define F where "F v i = (if (gate (n i) \<or> step mod 4 = 0) \<and> \<not> ready_svc e v \<and> fallbacks e v \<noteq> None
      then [TriggerAttackRelease (finalNote (n i) i) (durations_svc ! i) t
              (js_mul (velocity (n i)) (Num 0.4))]
      else [])" for v i
  have nd: "noteData_at e' i step = Inr (n i)" if "config e' = config e" "i < 4" for e' i
    unfolding n_def using noteData_at_Inr [OF that(1) m4 ne that(2)] .
  have step: "\<exists>e''. voice_step_svc t step v i e' = Inr e'' \<and> config e'' = config e
       \<and> loop e'' = loop e'
       \<and> (\<forall>w. w \<noteq> v \<longrightarrow> sampler_calls e'' w = sampler_calls e' w
                        \<and> fallback_calls e'' w = fallback_calls e' w)
       \<and> sampler_calls e'' v = sampler_calls e' v @ S v i
       \<and> fallback_calls e'' v = fallback_calls e' v @ F v i"
    if c: "config e' = config e" and i: "i < 4" for e' v i
    using voice_step_svc_effect [OF nd [OF c i], of t v]
      config_ready_svc [OF c, of v] config_fallback_None [OF c, of v] c
    unfolding S_def F_def by simp
  from step [OF refl, of 0 Bass] obtain e1 where e1:
    "voice_step_svc t step Bass 0 e = Inr e1" "config e1 = config e" "loop e1 = loop e"
    "\<forall>w. w \<noteq> Bass \<longrightarrow> sampler_calls e1 w = sampler_calls e w
                        \<and> fallback_calls e1 w = fallback_calls e w"
    "sampler_calls e1 Bass = sampler_calls e Bass @ S Bass 0"
    "fallback_calls e1 Bass = fallback_calls e Bass @ F Bass 0"
    by auto
  from step [OF e1(2), of 1 Tenor] obtain e2 where e2:
    "voice_step_svc t step Tenor 1 e1 = Inr e2" "config e2 = config e" "loop e2 = loop e1"
    "\<forall>w. w \<noteq> Tenor \<longrightarrow> sampler_calls e2 w = sampler_calls e1 w
                        \<and> fallback_calls e2 w = fallback_calls e1 w"
    "sampler_calls e2 Tenor = sampler_calls e1 Tenor @ S Tenor 1"
    "fallback_calls e2 Tenor = fallback_calls e1 Tenor @ F Tenor 1"
    by auto
  from step [OF e2(2), of 2 Alto] obtain e3 where e3:
    "voice_step_svc t step Alto 2 e2 = Inr e3" "config e3 = config e" "loop e3 = loop e2"
    "\<forall>w. w \<noteq> Alto \<longrightarrow> sampler_calls e3 w = sampler_calls e2 w
                        \<and> fallback_calls e3 w = fallback_calls e2 w"
    "sampler_calls e3 Alto = sampler_calls e2 Alto @ S Alto 2"
    "fallback_calls e3 Alto = fallback_calls e2 Alto @ F Alto 2"
    by auto
  from step [OF e3(2), of 3 Soprano] obtain e4 where e4:
    "voice_step_svc t step Soprano 3 e3 = Inr e4" "config e4 = config e" "loop e4 = loop e3"
    "\<forall>w. w \<noteq> Soprano \<longrightarrow> sampler_calls e4 w = sampler_calls e3 w
                        \<and> fallback_calls e4 w = fallback_calls e3 w"
    "sampler_calls e4 Soprano = sampler_calls e3 Soprano @ S Soprano 3"
    "fallback_calls e4 Soprano = fallback_calls e3 Soprano @ F Soprano 3"
    by auto
  have t: "tick_svc t e = Inr (e4\<lparr>loop := Some (step + 1)\<rparr>)"
    by (simp only: tick_svc_def l option.case zip_voices forEach.simps e1(1) e2(1) e3(1) e4(1)
        sum.case)
  have calls: "sampler_calls e4 v = sampler_calls e v @ S v (voice_index v)
      \<and> fallback_calls e4 v = fallback_calls e v @ F v (voice_index v)" for v
    using e1(4,5,6) e2(4,5,6) e3(4,5,6) e4(4,5,6) by (cases v) simp_all
  show ?thesis
    using t e4(2) calls unfolding S_def F_def n_def
    by (simp add: calls_loop_update)
qed

lemma tick_root_effect:
  assumes l: "loop e = Some step" and m4: "length (currentMelodies e) = 4"
    and ne: "[] \<notin> set (currentMelodies e)"
  shows "\<exists>e'. tick_root t e = Inr e' \<and> config e' = config e \<and> loop e' = Some (step + 1)
     \<and> (\<forall>v. sampler_calls e' v = sampler_calls e v @
            (if (gate (currentMelodies e ! voice_index v
                        ! (step mod length (currentMelodies e ! voice_index v)))
                 \<or> step mod 16 = 0) \<and> ready_root e v
             then [ReleaseAll (Some t), TriggerAttackRelease
                     (finalNote (currentMelodies e ! voice_index v
                        ! (step mod length (currentMelodies e ! voice_index v))) (voice_index v))
                     (durations_root ! voice_index v) t
                     (velocity (currentMelodies e ! voice_index v
                        ! (step mod length (currentMelodies e ! voice_index v))))]
             else [])
        \<and> fallback_calls e' v = fallback_calls e v @
            (if (gate (currentMelodies e ! voice_index v
                        ! (step mod length (currentMelodies e ! voice_index v)))
                 \<or> step mod 16 = 0) \<and> \<not> ready_root e v \<and> fallbacks e v \<noteq> None
             then [ReleaseAll (Some t), TriggerAttackRelease
                     (finalNote (currentMelodies e ! voice_index v
                        ! (step mod length (currentMelodies e ! voice_index v))) (voice_index v))
                     (durations_root ! voice_index v) t
                     (js_mul (velocity (currentMelodies e ! voice_index v
                        ! (step mod length (currentMelodies e ! voice_index v)))) (Num 0.5))]
             else []))"
proof -
  define n where "n i = currentMelodies e ! i ! (step mod length (currentMelodies e ! i))" for i
  define S where "S v i = (if (gate (n i) \<or> step mod 16 = 0) \<and> ready_root e v
      then [ReleaseAll (Some t), TriggerAttackRelease (finalNote (n i) i) (durations_root ! i) t (velocity (n i))]
      else [])" for v i
  define F where "F v i = (if (gate (n i) \<or> step mod 16 = 0) \<and> \<not> ready_root e v \<and> fallbacks e v \<noteq> None
      then [ReleaseAll (Some t), TriggerAttackRelease (finalNote (n i) i) (durations_root ! i) t
              (js_mul (velocity (n i)) (Num 0.5))]
      else [])" for v i
  have nd: "noteData_at e' i step = Inr (n i)" if "config e' = config e" "i < 4" for e' i
    unfolding n_def using noteData_at_Inr [OF that(1) m4 ne that(2)] .
  have step: "\<exists>e''. voice_step_root t step v i e' = Inr e'' \<and> config e'' = config e
       \<and> loop e'' = loop e'
       \<and> (\<forall>w. w \<noteq> v \<longrightarrow> sampler_calls e'' w = sampler_calls e' w
                        \<and> fallback_calls e'' w = fallback_calls e' w)
       \<and> sampler_calls e'' v = sampler_calls e' v @ S v i
       \<and> fallback_calls e'' v = fallback_calls e' v @ F v i"
    if c: "config e' = config e" and i: "i < 4" for e' v i
    using voice_step_root_effect [OF nd [OF c i], of t v]
      config_ready_root [OF c, of v] config_fallback_None [OF c, of v] c
    unfolding S_def F_def by simp
  from step [OF refl, of 0 Bass] obtain e1 where e1:
    "voice_step_root t step Bass 0 e = Inr e1" "config e1 = config e" "loop e1 = loop e"
    "\<forall>w. w \<noteq> Bass \<longrightarrow> sampler_calls e1 w = sampler_calls e w
                        \<and> fallback_calls e1 w = fallback_calls e w"
    "sampler_calls e1 Bass = sampler_calls e Bass @ S Bass 0"
    "fallback_calls e1 Bass = fallback_calls e Bass @ F Bass 0"
    by auto
  from step [OF e1(2), of 1 Tenor] obtain e2 where e2:
    "voice_step_root t step Tenor 1 e1 = Inr e2" "config e2 = config e" "loop e2 = loop e1"
    "\<forall>w. w \<noteq> Tenor \<longrightarrow> sampler_calls e2 w = sampler_calls e1 w
                        \<and> fallback_calls e2 w = fallback_calls e1 w"
    "sampler_calls e2 Tenor = sampler_calls e1 Tenor @ S Tenor 1"
    "fallback_calls e2 Tenor = fallback_calls e1 Tenor @ F Tenor 1"
    by auto
  from step [OF e2(2), of 2 Alto] obtain e3 where e3:
    "voice_step_root t step Alto 2 e2 = Inr e3" "config e3 = config e" "loop e3 = loop e2"
    "\<forall>w. w \<noteq> Alto \<longrightarrow> sampler_calls e3 w = sampler_calls e2 w
                        \<and> fallback_calls e3 w = fallback_calls e2 w"
    "sampler_calls e3 Alto = sampler_calls e2 Alto @ S Alto 2"
    "fallback_calls e3 Alto = fallback_calls e2 Alto @ F Alto 2"
    by auto
  from step [OF e3(2), of 3 Soprano] obtain e4 where e4:
    "voice_step_root t step Soprano 3 e3 = Inr e4" "config e4 = config e" "loop e4 = loop e3"
    "\<forall>w. w \<noteq> Soprano \<longrightarrow> sampler_calls e4 w = sampler_calls e3 w
                        \<and> fallback_calls e4 w = fallback_calls e3 w"
    "sampler_calls e4 Soprano = sampler_calls e3 Soprano @ S Soprano 3"
    "fallback_calls e4 Soprano = fallback_calls e3 Soprano @ F Soprano 3"
    by auto
  have t: "tick_root t e = Inr (e4\<lparr>loop := Some (step + 1)\<rparr>)"
    by (simp only: tick_root_def l option.case zip_voices forEach.simps e1(1) e2(1) e3(1) e4(1)
        sum.case)
  have calls: "sampler_calls e4 v = sampler_calls e v @ S v (voice_index v)
      \<and> fallback_calls e4 v = fallback_calls e v @ F v (voice_index v)" for v
    using e1(4,5,6) e2(4,5,6) e3(4,5,6) e4(4,5,6) by (cases v) simp_all
  show ?thesis
    using t e4(2) calls unfolding S_def F_def n_def
    by (simp add: calls_loop_update)
qed


lemma load_voice_settled:
  assumes "outcome key \<noteq> Pending"
  shows "load_voice outcome key e =
     e\<lparr>samplers := (samplers e)(key \<mapsto> \<lparr>loaded = (outcome key = OnLoad), calls = []\<rparr>),
       loadedStates := (loadedStates e)(key := (outcome key = OnLoad))\<rparr>"
  using assms by (cases "outcome key") (simp_all add: load_voice_def)

lemma load_effect:
  assumes "\<forall>key. outcome key \<noteq> Pending"
  shows "\<exists>e1. load outcome e = Some e1
     \<and> (\<forall>key. samplers e1 key = Some \<lparr>loaded = (outcome key = OnLoad), calls = []\<rparr>
              \<and> loadedStates e1 key = (outcome key = OnLoad))
     \<and> fallbacks e1 = fallbacks e \<and> onPhaseChange e1 = onPhaseChange e
     \<and> notified e1 = notified e \<and> isInitialized e1"
proof -
  have p: "list_all (\<lambda>key. outcome key \<noteq> Pending) voices"
    using assms by (simp add: voices_def)
  have s: "load_voice outcome key e' =
     e'\<lparr>samplers := (samplers e')(key \<mapsto> \<lparr>loaded = (outcome key = OnLoad), calls = []\<rparr>),
       loadedStates := (loadedStates e')(key := (outcome key = OnLoad))\<rparr>" for key e'
    using assms load_voice_settled [of outcome key e'] by simp
  define e1 where "e1 = fold (load_voice outcome) voices (e\<lparr>isInitialized := True\<rparr>)"
  have l: "load outcome e = Some e1"
    using p by (simp add: load_def e1_def Let_def)
  have "samplers e1 key = Some \<lparr>loaded = (outcome key = OnLoad), calls = []\<rparr>
      \<and> loadedStates e1 key = (outcome key = OnLoad)" for key
    by (cases key) (simp_all add: e1_def voices_def s)
  moreover have "fallbacks e1 = fallbacks e \<and> onPhaseChange e1 = onPhaseChange e
      \<and> notified e1 = notified e \<and> isInitialized e1"
    by (simp add: e1_def voices_def s)
  ultimately show ?thesis
    using l by blast
qed

section \<open>Loading and the ticks after play\<close>

lemma slice_map_Num: "slice (map Num xs) a b = map Num (take (b - a) (drop a xs))"
  by (simp add: slice_def take_map drop_map)

lemma sixteen_each:
  assumes "map length ms = [16, 16, 16, 16]"
  shows "length ms = 4 \<and> [] \<notin> set ms \<and> (\<forall>i<4. length (ms ! i) = 16)"
proof -
  have l: "length ms = 4"
    using arg_cong [OF assms, of length] by simp
  have s: "length m = 16" if "m \<in> set ms" for m
  proof -
    from that have "length m \<in> set (map length ms)" by simp
    then show ?thesis unfolding assms by simp
  qed
  have "[] \<notin> set ms"
    using s [of "[]"] by auto
  moreover have "\<forall>i<4. length (ms ! i) = 16"
    using s l by simp
  ultimately show ?thesis
    using l by simp
qed

lemma play_svc_melodies_ok:
  "length (currentMelodies (play_svc v p e)) = 4 \<and> [] \<notin> set (currentMelodies (play_svc v p e))
   \<and> (\<forall>i<4. length (currentMelodies (play_svc v p e) ! i) = 16)"
  by (rule sixteen_each) (simp add: currentMelodies_play_svc length_getVoiceMelody_svc)

lemma play_root_melodies_ok:
  "length (currentMelodies (play_root v p e)) = 4 \<and> [] \<notin> set (currentMelodies (play_root v p e))
   \<and> (\<forall>i<4. length (currentMelodies (play_root v p e) ! i) = 16)"
  by (rule sixteen_each) (simp add: currentMelodies_play_root length_getVoiceMelody_root)

lemma voice_index_less: "voice_index v < 4"
  by (cases v) simp_all

lemma tick_svc_config:
  assumes "loop e = Some step" and "length (currentMelodies e) = 4"
    and "[] \<notin> set (currentMelodies e)"
  shows "\<exists>e'. tick_svc t e = Inr e' \<and> config e' = config e \<and> loop e' = Some (step + 1)"
  using tick_svc_effect [OF assms, of t] by (elim exE conjE) (intro exI conjI)

lemma ticks_svc_config:
  assumes "loop e = Some step" and "length (currentMelodies e) = 4"
    and "[] \<notin> set (currentMelodies e)"
  shows "\<exists>a. ticks_svc t n e = Inr a \<and> config a = config e \<and> loop a = Some (step + n)"
  using assms
proof (induction n arbitrary: e step t)
  case 0
  then show ?case by simp
next
  case (Suc n)
  from tick_svc_config [OF Suc.prems, of t] obtain e1 where
    e1: "tick_svc t e = Inr e1" "config e1 = config e" "loop e1 = Some (step + 1)"
    by blast
  have m: "currentMelodies e1 = currentMelodies e"
    using e1(2) by (simp add: config_def)
  from Suc.IH [of e1 "step + 1" "t + 1"] e1(3) m Suc.prems(2,3)
  obtain a where "ticks_svc (t + 1) n e1 = Inr a" "config a = config e1"
    "loop a = Some (step + 1 + n)"
    by auto
  with e1(1,2) show ?case by simp
qed

lemma tick_root_config:
  assumes "loop e = Some step" and "length (currentMelodies e) = 4"
    and "[] \<notin> set (currentMelodies e)"
  shows "\<exists>e'. tick_root t e = Inr e' \<and> config e' = config e \<and> loop e' = Some (step + 1)"
  using tick_root_effect [OF assms, of t] by (elim exE conjE) (intro exI conjI)

lemma ticks_root_config:
  assumes "loop e = Some step" and "length (currentMelodies e) = 4"
    and "[] \<notin> set (currentMelodies e)"
  shows "\<exists>a. ticks_root t n e = Inr a \<and> config a = config e \<and> loop a = Some (step + n)"
  using assms
proof (induction n arbitrary: e step t)
  case 0
  then show ?case by simp
next
  case (Suc n)
  from tick_root_config [OF Suc.prems, of t] obtain e1 where
    e1: "tick_root t e = Inr e1" "config e1 = config e" "loop e1 = Some (step + 1)"
    by blast
  have m: "currentMelodies e1 = currentMelodies e"
    using e1(2) by (simp add: config_def)
  from Suc.IH [of e1 "step + 1" "t + 1"] e1(3) m Suc.prems(2,3)
  obtain a where "ticks_root (t + 1) n e1 = Inr a" "config a = config e1"
    "loop a = Some (step + 1 + n)"
    by auto
  with e1(1,2) show ?case by simp
qed

lemma finalNote_computed:
  assumes "i < 4"
  shows "finalNote \<lparr>noteIndex = Num (of_int (computed_scaleDegreeIndex val)),
                    octaveShift = Num (of_int (computed_octaveShift val)),
                    gate = g, velocity = v\<rparr> i
           = computed_note val i"
proof -
  let ?K = "computed_scaleDegreeIndex val"
  have r: "0 \<le> ?K" "?K \<le> 6"
    using computed_scaleDegreeIndex_range [of val] by simp_all
  have "js_rem (Num (of_int ?K)) (Num 7) = Num (of_int (?K mod 7))"
    using r(1) by (rule js_rem_nonneg_int)
  also have "?K mod 7 = ?K"
    using r by simp
  finally have j: "js_rem (Num (of_int ?K)) (Num 7) = Num (of_int ?K)" .
  have s: "scale_at (Num (of_int ?K)) = Some (scale ! nat ?K)"
    using r by (simp add: scale_at_def length_scale)
  show ?thesis
    by (simp add: finalNote_def length_scale j s computed_note_def del: js_rem.simps)
qed

lemma play_svc_note:
  fixes vec :: "real list"
  assumes "length vec = 384" and "k < 16"
  shows "currentMelodies (play_svc (map Num vec) p e) ! voice_index key ! k =
     \<lparr>noteIndex = Num (of_int (computed_scaleDegreeIndex (vec ! (96 * voice_index key + k)))),
      octaveShift = Num (of_int (computed_octaveShift (vec ! (96 * voice_index key + k)))),
      gate = (0.4 + real (voice_index key) * 0.1 < \<bar>vec ! (96 * voice_index key + k) * 25\<bar>),
      velocity = Num (spec_velocity (vec ! (96 * voice_index key + k)))\<rparr>"
proof -
  have n: "getVoiceMelody_svc (slice (map Num vec) a (a + 96)) j 16 ! k =
     \<lparr>noteIndex = Num (of_int (computed_scaleDegreeIndex (vec ! (a + k)))),
      octaveShift = Num (of_int (computed_octaveShift (vec ! (a + k)))),
      gate = (0.4 + real j * 0.1 < \<bar>vec ! (a + k) * 25\<bar>),
      velocity = Num (spec_velocity (vec ! (a + k)))\<rparr>"
    if "a + 96 \<le> 384" for a j
  proof -
    have ne: "take 96 (drop a vec) \<noteq> []"
      using that assms(1) by auto
    have v: "take 96 (drop a vec) ! (k mod length (take 96 (drop a vec))) = vec ! (a + k)"
      using that assms by simp
    show ?thesis
      using note_svc_Num [OF ne, of j k] assms(2)
      unfolding v
      by (simp add: nth_getVoiceMelody_svc slice_map_Num spec_velocity_eq)
  qed
  show ?thesis
    using n [of 0 0] n [of 96 1] n [of 192 2] n [of 288 3]
    by (cases key) (simp_all add: currentMelodies_play_svc)
qed

lemma play_root_note:
  fixes vec :: "real list"
  assumes "length vec = 384" and "k < 16"
  shows "currentMelodies (play_root (map Num vec) p e) ! voice_index key ! k =
     \<lparr>noteIndex = Num (of_int (computed_scaleDegreeIndex (vec ! (96 * voice_index key + k)))),
      octaveShift = Num (of_int (computed_octaveShift (vec ! (96 * voice_index key + k)))),
      gate = (0.5 + real (voice_index key) * 0.1 < \<bar>vec ! (96 * voice_index key + k) * 25\<bar>),
      velocity = Num (spec_velocity (vec ! (96 * voice_index key + k)))\<rparr>"
proof -
  have n: "getVoiceMelody_root (slice (map Num vec) a (a + 96)) j 16 ! k =
     \<lparr>noteIndex = Num (of_int (computed_scaleDegreeIndex (vec ! (a + k)))),
      octaveShift = Num (of_int (computed_octaveShift (vec ! (a + k)))),
      gate = (0.5 + real j * 0.1 < \<bar>vec ! (a + k) * 25\<bar>),
      velocity = Num (spec_velocity (vec ! (a + k)))\<rparr>"
    if "a + 96 \<le> 384" for a j
  proof -
    have ne: "take 96 (drop a vec) \<noteq> []"
      using that assms(1) by auto
    have v: "take 96 (drop a vec) ! (k mod length (take 96 (drop a vec))) = vec ! (a + k)"
      using that assms by simp
    show ?thesis
      using note_root_Num [OF ne, of j k] assms(2)
      unfolding v
      by (simp add: nth_getVoiceMelody_root slice_map_Num spec_velocity_eq)
  qed
  show ?thesis
    using n [of 0 0] n [of 96 1] n [of 192 2] n [of 288 3]
    by (cases key) (simp_all add: currentMelodies_play_root)
qed

lemma tick_svc_played:
  fixes vec :: "real list"
  assumes len: "length vec = 384"
    and c: "config a = config (play_svc (map Num vec) p e1)"
    and l: "loop a = Some n"
  shows "\<exists>b. tick_svc time a = Inr b
     \<and> (\<forall>key. sampler_calls b key = sampler_calls a key @
            (if (0.4 + real (voice_index key) * 0.1 < \<bar>step_value vec key n * 25\<bar>
                 \<or> n mod 4 = 0) \<and> ready_svc e1 key
             then [TriggerAttackRelease
                     (computed_note (step_value vec key n) (voice_index key))
                     (durations_svc ! voice_index key) time
                     (Num (spec_velocity (step_value vec key n)))]
             else [])
        \<and> fallback_calls b key = fallback_calls a key @
            (if (0.4 + real (voice_index key) * 0.1 < \<bar>step_value vec key n * 25\<bar>
                 \<or> n mod 4 = 0) \<and> \<not> ready_svc e1 key \<and> fallbacks e1 key \<noteq> None
             then [TriggerAttackRelease
                     (computed_note (step_value vec key n) (voice_index key))
                     (durations_svc ! voice_index key) time
                     (Num (0.4 * spec_velocity (step_value vec key n)))]
             else []))"
proof -
  let ?P = "play_svc (map Num vec) p e1"
  have cm: "currentMelodies a = currentMelodies ?P"
    using c by (simp add: config_def)
  have ok: "length (currentMelodies a) = 4" "[] \<notin> set (currentMelodies a)"
    "\<forall>i<4. length (currentMelodies a ! i) = 16"
    unfolding cm using play_svc_melodies_ok [of "map Num vec" p e1] by simp_all
  have r: "ready_svc a key = ready_svc e1 key" for key
    using config_ready_svc [OF c, of key]
    by (simp add: ready_svc_def play_svc_fields stop_root_fields)
  have f: "(fallbacks a key = None) = (fallbacks e1 key = None)" for key
    using config_fallback_None [OF c, of key]
    by (simp add: play_svc_fields stop_root_fields)
  have k: "n mod 16 < 16"
    by simp
  have nd: "currentMelodies a ! voice_index key ! (n mod length (currentMelodies a ! voice_index key))
      = \<lparr>noteIndex = Num (of_int (computed_scaleDegreeIndex (step_value vec key n))),
         octaveShift = Num (of_int (computed_octaveShift (step_value vec key n))),
         gate = (0.4 + real (voice_index key) * 0.1 < \<bar>step_value vec key n * 25\<bar>),
         velocity = Num (spec_velocity (step_value vec key n))\<rparr>" for key
    using ok(3) voice_index_less [of key] play_svc_note [OF len k, of p e1 key]
    unfolding cm step_value_def by simp
  from tick_svc_effect [OF l ok(1,2), of time] obtain b where
    *: "tick_svc time a = Inr b \<and> config b = config a \<and> loop b = Some (n + 1)
     \<and> (\<forall>key. sampler_calls b key = sampler_calls a key @
            (if (gate (currentMelodies a ! voice_index key
                        ! (n mod length (currentMelodies a ! voice_index key)))
                 \<or> n mod 4 = 0) \<and> ready_svc a key
             then [TriggerAttackRelease
                     (finalNote (currentMelodies a ! voice_index key
                        ! (n mod length (currentMelodies a ! voice_index key))) (voice_index key))
                     (durations_svc ! voice_index key) time
                     (velocity (currentMelodies a ! voice_index key
                        ! (n mod length (currentMelodies a ! voice_index key))))]
             else [])
        \<and> fallback_calls b key = fallback_calls a key @
            (if (gate (currentMelodies a ! voice_index key
                        ! (n mod length (currentMelodies a ! voice_index key)))
                 \<or> n mod 4 = 0) \<and> \<not> ready_svc a key \<and> fallbacks a key \<noteq> None
             then [TriggerAttackRelease
                     (finalNote (currentMelodies a ! voice_index key
                        ! (n mod length (currentMelodies a ! voice_index key))) (voice_index key))
                     (durations_svc ! voice_index key) time
                     (js_mul (velocity (currentMelodies a ! voice_index key
                        ! (n mod length (currentMelodies a ! voice_index key)))) (Num 0.4))]
             else []))"
    by blast
  have "sampler_calls b key = sampler_calls a key @
            (if (0.4 + real (voice_index key) * 0.1 < \<bar>step_value vec key n * 25\<bar>
                 \<or> n mod 4 = 0) \<and> ready_svc e1 key
             then [TriggerAttackRelease
                     (computed_note (step_value vec key n) (voice_index key))
                     (durations_svc ! voice_index key) time
                     (Num (spec_velocity (step_value vec key n)))]
             else [])
        \<and> fallback_calls b key = fallback_calls a key @
            (if (0.4 + real (voice_index key) * 0.1 < \<bar>step_value vec key n * 25\<bar>
                 \<or> n mod 4 = 0) \<and> \<not> ready_svc e1 key \<and> fallbacks e1 key \<noteq> None
             then [TriggerAttackRelease
                     (computed_note (step_value vec key n) (voice_index key))
                     (durations_svc ! voice_index key) time
                     (Num (0.4 * spec_velocity (step_value vec key n)))]
             else [])" for key
    using * [THEN conjunct2, THEN conjunct2, THEN conjunct2, THEN spec, of key]
    unfolding nd finalNote_computed [OF voice_index_less]
    by (simp add: r f mult.commute)
  with * show ?thesis
    by blast
qed

lemma tick_root_played:
  fixes vec :: "real list"
  assumes len: "length vec = 384"
    and c: "config a = config (play_root (map Num vec) p e1)"
    and l: "loop a = Some n"
  shows "\<exists>b. tick_root time a = Inr b
     \<and> (\<forall>key. sampler_calls b key = sampler_calls a key @
            (if (0.5 + real (voice_index key) * 0.1 < \<bar>step_value vec key n * 25\<bar>
                 \<or> n mod 16 = 0) \<and> ready_root e1 key
             then [ReleaseAll (Some time), TriggerAttackRelease
                     (computed_note (step_value vec key n) (voice_index key))
                     (durations_root ! voice_index key) time
                     (Num (spec_velocity (step_value vec key n)))]
             else [])
        \<and> fallback_calls b key = fallback_calls a key @
            (if (0.5 + real (voice_index key) * 0.1 < \<bar>step_value vec key n * 25\<bar>
                 \<or> n mod 16 = 0) \<and> \<not> ready_root e1 key \<and> fallbacks e1 key \<noteq> None
             then [ReleaseAll (Some time), TriggerAttackRelease
                     (computed_note (step_value vec key n) (voice_index key))
                     (durations_root ! voice_index key) time
                     (Num (0.5 * spec_velocity (step_value vec key n)))]
             else []))"
proof -
  let ?P = "play_root (map Num vec) p e1"
  have cm: "currentMelodies a = currentMelodies ?P"
    using c by (simp add: config_def)
  have ok: "length (currentMelodies a) = 4" "[] \<notin> set (currentMelodies a)"
    "\<forall>i<4. length (currentMelodies a ! i) = 16"
    unfolding cm using play_root_melodies_ok [of "map Num vec" p e1] by simp_all
  have r: "ready_root a key = ready_root e1 key" for key
    using config_ready_root [OF c, of key]
    by (simp add: ready_root_def play_root_fields stop_root_fields)
  have f: "(fallbacks a key = None) = (fallbacks e1 key = None)" for key
    using config_fallback_None [OF c, of key]
    by (simp add: play_root_fields stop_root_fields)
  have k: "n mod 16 < 16"
    by simp
  have nd: "currentMelodies a ! voice_index key ! (n mod length (currentMelodies a ! voice_index key))
      = \<lparr>noteIndex = Num (of_int (computed_scaleDegreeIndex (step_value vec key n))),
         octaveShift = Num (of_int (computed_octaveShift (step_value vec key n))),
         gate = (0.5 + real (voice_index key) * 0.1 < \<bar>step_value vec key n * 25\<bar>),
         velocity = Num (spec_velocity (step_value vec key n))\<rparr>" for key
    using ok(3) voice_index_less [of key] play_root_note [OF len k, of p e1 key]
    unfolding cm step_value_def by simp
  from tick_root_effect [OF l ok(1,2), of time] obtain b where
    *: "tick_root time a = Inr b \<and> config b = config a \<and> loop b = Some (n + 1)
     \<and> (\<forall>key. sampler_calls b key = sampler_calls a key @
            (if (gate (currentMelodies a ! voice_index key
                        ! (n mod length (currentMelodies a ! voice_index key)))
                 \<or> n mod 16 = 0) \<and> ready_root a key
             then [ReleaseAll (Some time), TriggerAttackRelease
                     (finalNote (currentMelodies a ! voice_index key
                        ! (n mod length (currentMelodies a ! voice_index key))) (voice_index key))
                     (durations_root ! voice_index key) time
                     (velocity (currentMelodies a ! voice_index key
                        ! (n mod length (currentMelodies a ! voice_index key))))]
             else [])
        \<and> fallback_calls b key = fallback_calls a key @
            (if (gate (currentMelodies a ! voice_index key
                        ! (n mod length (currentMelodies a ! voice_index key)))
                 \<or> n mod 16 = 0) \<and> \<not> ready_root a key \<and> fallbacks a key \<noteq> None
             then [ReleaseAll (Some time), TriggerAttackRelease
                     (finalNote (currentMelodies a ! voice_index key
                        ! (n mod length (currentMelodies a ! voice_index key))) (voice_index key))
                     (durations_root ! voice_index key) time
                     (js_mul (velocity (currentMelodies a ! voice_index key
                        ! (n mod length (currentMelodies a ! voice_index key)))) (Num 0.5))]
             else []))"
    by blast
  have "sampler_calls b key = sampler_calls a key @
            (if (0.5 + real (voice_index key) * 0.1 < \<bar>step_value vec key n * 25\<bar>
                 \<or> n mod 16 = 0) \<and> ready_root e1 key
             then [ReleaseAll (Some time), TriggerAttackRelease
                     (computed_note (step_value vec key n) (voice_index key))
                     (durations_root ! voice_index key) time
                     (Num (spec_velocity (step_value vec key n)))]
             else [])
        \<and> fallback_calls b key = fallback_calls a key @
            (if (0.5 + real (voice_index key) * 0.1 < \<bar>step_value vec key n * 25\<bar>
                 \<or> n mod 16 = 0) \<and> \<not> ready_root e1 key \<and> fallbacks e1 key \<noteq> None
             then [ReleaseAll (Some time), TriggerAttackRelease
                     (computed_note (step_value vec key n) (voice_index key))
                     (durations_root ! voice_index key) time
                     (Num (0.5 * spec_velocity (step_value vec key n)))]
             else [])" for key
    using * [THEN conjunct2, THEN conjunct2, THEN conjunct2, THEN spec, of key]
    unfolding nd finalNote_computed [OF voice_index_less]
    by (simp add: r f mult.commute)
  with * show ?thesis
    by blast
qed

lemma calls_stop_root:
  "sampler_calls (stop_root e) v = (if samplers e v = None then [] else sampler_calls e v @ [ReleaseAll None])"
  "fallback_calls (stop_root e) v = (if fallbacks e v = None then [] else fallback_calls e v @ [ReleaseAll None])"
  by (auto simp add: sampler_calls_def fallback_calls_def stop_root_fields split: option.split)

text \<open>
  C8: when every sample load ends, in \<open>onload\<close> or in \<open>onerror\<close> (so also when one
  to three of the four fail), \<open>load\<close> resolves and the readiness flag of a voice is
  true exactly when its load succeeded. After a following \<open>play\<close> of a vector of 384
  reals, every tick of the loop, the one at step \<open>n\<close> for every \<open>n\<close>, returns and
  makes these calls and no other: for each voice that sounds at that step (its gate
  is open, or the step is a pulse, as step 0 is for all four voices) one
  \<open>triggerAttackRelease\<close> of the note of the step, for the duration of the voice; on
  the sampler, at the velocity of the note, when the load of the voice succeeded; on
  the fallback synthesizer, at 0.4 times that velocity, when it failed. In
  \<open>src/musicEngine.ts\<close> the same holds with the pulse every 16 steps, the factor 0.5,
  and a \<open>releaseAll\<close> on the same instrument before each trigger.
\<close>

theorem partial_load_failure_falls_back:
  fixes vec :: "real list"
  assumes "\<forall>key. outcome key \<noteq> Pending" and "\<forall>key. fallbacks e key \<noteq> None"
    and "length vec = 384"
  shows "\<exists>e1. load outcome e = Some e1
     \<and> (\<forall>key. loadedStates e1 key = (outcome key = OnLoad))
     \<and> (\<forall>key. sampler_calls (play_svc (map Num vec) p e1) key = []
             \<and> fallback_calls (play_svc (map Num vec) p e1) key = fallback_calls e key)
     \<and> (\<forall>n. \<exists>a b. ticks_svc t n (play_svc (map Num vec) p e1) = Inr a
             \<and> tick_svc (t + n) a = Inr b
             \<and> (\<forall>key. sampler_calls b key = sampler_calls a key @
                    (if (0.4 + real (voice_index key) * 0.1 < \<bar>step_value vec key n * 25\<bar>
                         \<or> n mod 4 = 0) \<and> outcome key = OnLoad
                     then [TriggerAttackRelease
                             (computed_note (step_value vec key n) (voice_index key))
                             (durations_svc ! voice_index key) (t + n)
                             (Num (spec_velocity (step_value vec key n)))]
                     else [])
                 \<and> fallback_calls b key = fallback_calls a key @
                    (if (0.4 + real (voice_index key) * 0.1 < \<bar>step_value vec key n * 25\<bar>
                         \<or> n mod 4 = 0) \<and> outcome key = OnError
                     then [TriggerAttackRelease
                             (computed_note (step_value vec key n) (voice_index key))
                             (durations_svc ! voice_index key) (t + n)
                             (Num (0.4 * spec_velocity (step_value vec key n)))]
                     else [])))
     \<and> (\<forall>key. sampler_calls (play_root (map Num vec) p e1) key = [ReleaseAll None]
             \<and> fallback_calls (play_root (map Num vec) p e1) key = fallback_calls e key @ [ReleaseAll None])
     \<and> (\<forall>n. \<exists>a b. ticks_root t n (play_root (map Num vec) p e1) = Inr a
             \<and> tick_root (t + n) a = Inr b
             \<and> (\<forall>key. sampler_calls b key = sampler_calls a key @
                    (if (0.5 + real (voice_index key) * 0.1 < \<bar>step_value vec key n * 25\<bar>
                         \<or> n mod 16 = 0) \<and> outcome key = OnLoad
                     then [ReleaseAll (Some (t + n)), TriggerAttackRelease
                             (computed_note (step_value vec key n) (voice_index key))
                             (durations_root ! voice_index key) (t + n)
                             (Num (spec_velocity (step_value vec key n)))]
                     else [])
                 \<and> fallback_calls b key = fallback_calls a key @
                    (if (0.5 + real (voice_index key) * 0.1 < \<bar>step_value vec key n * 25\<bar>
                         \<or> n mod 16 = 0) \<and> outcome key = OnError
                     then [ReleaseAll (Some (t + n)), TriggerAttackRelease
                             (computed_note (step_value vec key n) (voice_index key))
                             (durations_root ! voice_index key) (t + n)
                             (Num (0.5 * spec_velocity (step_value vec key n)))]
                     else [])))"
proof -
  from load_effect [OF assms(1), of e] obtain e1 where l: "load outcome e = Some e1"
    and s: "\<And>key. samplers e1 key = Some \<lparr>loaded = (outcome key = OnLoad), calls = []\<rparr>"
    and ls: "\<forall>key. loadedStates e1 key = (outcome key = OnLoad)"
    and f: "fallbacks e1 = fallbacks e"
    by blast
  have rsvc: "ready_svc e1 key = (outcome key = OnLoad)" for key
    by (simp add: ready_svc_def s)
  have rroot: "ready_root e1 key = (outcome key = OnLoad)" for key
    using ls by (simp add: ready_root_def s)
  have fn: "fallbacks e1 key \<noteq> None" for key
    using assms(2) f by simp
  have oe: "(outcome key \<noteq> OnLoad) = (outcome key = OnError)" for key
    using assms(1) by (cases "outcome key") auto
  have i1: "\<forall>key. sampler_calls (play_svc (map Num vec) p e1) key = []
             \<and> fallback_calls (play_svc (map Num vec) p e1) key = fallback_calls e key"
    by (simp add: sampler_calls_def fallback_calls_def play_svc_fields s f)
  have i2: "\<forall>key. sampler_calls (play_root (map Num vec) p e1) key = [ReleaseAll None]
             \<and> fallback_calls (play_root (map Num vec) p e1) key = fallback_calls e key @ [ReleaseAll None]"
  proof
    fix key
    from assms(2) have "fallbacks e key \<noteq> None" ..
    then obtain c where "fallbacks e key = Some c"
      by (cases "fallbacks e key") simp_all
    then show "sampler_calls (play_root (map Num vec) p e1) key = [ReleaseAll None]
             \<and> fallback_calls (play_root (map Num vec) p e1) key = fallback_calls e key @ [ReleaseAll None]"
      by (simp add: sampler_calls_def fallback_calls_def play_root_fields stop_root_fields s f)
  qed
  have t1: "\<exists>a b. ticks_svc t n (play_svc (map Num vec) p e1) = Inr a
             \<and> tick_svc (t + n) a = Inr b
             \<and> (\<forall>key. sampler_calls b key = sampler_calls a key @
                    (if (0.4 + real (voice_index key) * 0.1 < \<bar>step_value vec key n * 25\<bar>
                         \<or> n mod 4 = 0) \<and> outcome key = OnLoad
                     then [TriggerAttackRelease
                             (computed_note (step_value vec key n) (voice_index key))
                             (durations_svc ! voice_index key) (t + n)
                             (Num (spec_velocity (step_value vec key n)))]
                     else [])
                 \<and> fallback_calls b key = fallback_calls a key @
                    (if (0.4 + real (voice_index key) * 0.1 < \<bar>step_value vec key n * 25\<bar>
                         \<or> n mod 4 = 0) \<and> outcome key = OnError
                     then [TriggerAttackRelease
                             (computed_note (step_value vec key n) (voice_index key))
                             (durations_svc ! voice_index key) (t + n)
                             (Num (0.4 * spec_velocity (step_value vec key n)))]
                     else []))" for n
  proof -
    from ticks_svc_config [of "play_svc (map Num vec) p e1" 0 t n]
      play_svc_melodies_ok [of "map Num vec" p e1]
    obtain a where a: "ticks_svc t n (play_svc (map Num vec) p e1) = Inr a"
      "config a = config (play_svc (map Num vec) p e1)" "loop a = Some n"
      by (auto simp add: play_svc_fields)
    from tick_svc_played [OF assms(3) a(2,3), of "t + n"] obtain b where
      b: "tick_svc (t + n) a = Inr b
     \<and> (\<forall>key. sampler_calls b key = sampler_calls a key @
            (if (0.4 + real (voice_index key) * 0.1 < \<bar>step_value vec key n * 25\<bar>
                 \<or> n mod 4 = 0) \<and> ready_svc e1 key
             then [TriggerAttackRelease
                     (computed_note (step_value vec key n) (voice_index key))
                     (durations_svc ! voice_index key) (t + n)
                     (Num (spec_velocity (step_value vec key n)))]
             else [])
        \<and> fallback_calls b key = fallback_calls a key @
            (if (0.4 + real (voice_index key) * 0.1 < \<bar>step_value vec key n * 25\<bar>
                 \<or> n mod 4 = 0) \<and> \<not> ready_svc e1 key \<and> fallbacks e1 key \<noteq> None
             then [TriggerAttackRelease
                     (computed_note (step_value vec key n) (voice_index key))
                     (durations_svc ! voice_index key) (t + n)
                     (Num (0.4 * spec_velocity (step_value vec key n)))]
             else []))"
      by blast
    have "sampler_calls b key = sampler_calls a key @
                    (if (0.4 + real (voice_index key) * 0.1 < \<bar>step_value vec key n * 25\<bar>
                         \<or> n mod 4 = 0) \<and> outcome key = OnLoad
                     then [TriggerAttackRelease
                             (computed_note (step_value vec key n) (voice_index key))
                             (durations_svc ! voice_index key) (t + n)
                             (Num (spec_velocity (step_value vec key n)))]
                     else [])
                 \<and> fallback_calls b key = fallback_calls a key @
                    (if (0.4 + real (voice_index key) * 0.1 < \<bar>step_value vec key n * 25\<bar>
                         \<or> n mod 4 = 0) \<and> outcome key = OnError
                     then [TriggerAttackRelease
                             (computed_note (step_value vec key n) (voice_index key))
                             (durations_svc ! voice_index key) (t + n)
                             (Num (0.4 * spec_velocity (step_value vec key n)))]
                     else [])" for key
      using b [THEN conjunct2, THEN spec, of key] fn [of key] oe [of key]
      by (simp add: rsvc)
    with a(1) b show ?thesis
      by blast
  qed
  have t2: "\<exists>a b. ticks_root t n (play_root (map Num vec) p e1) = Inr a
             \<and> tick_root (t + n) a = Inr b
             \<and> (\<forall>key. sampler_calls b key = sampler_calls a key @
                    (if (0.5 + real (voice_index key) * 0.1 < \<bar>step_value vec key n * 25\<bar>
                         \<or> n mod 16 = 0) \<and> outcome key = OnLoad
                     then [ReleaseAll (Some (t + n)), TriggerAttackRelease
                             (computed_note (step_value vec key n) (voice_index key))
                             (durations_root ! voice_index key) (t + n)
                             (Num (spec_velocity (step_value vec key n)))]
                     else [])
                 \<and> fallback_calls b key = fallback_calls a key @
                    (if (0.5 + real (voice_index key) * 0.1 < \<bar>step_value vec key n * 25\<bar>
                         \<or> n mod 16 = 0) \<and> outcome key = OnError
                     then [ReleaseAll (Some (t + n)), TriggerAttackRelease
                             (computed_note (step_value vec key n) (voice_index key))
                             (durations_root ! voice_index key) (t + n)
                             (Num (0.5 * spec_velocity (step_value vec key n)))]
                     else []))" for n
  proof -
    from ticks_root_config [of "play_root (map Num vec) p e1" 0 t n]
      play_root_melodies_ok [of "map Num vec" p e1]
    obtain a where a: "ticks_root t n (play_root (map Num vec) p e1) = Inr a"
      "config a = config (play_root (map Num vec) p e1)" "loop a = Some n"
      by (auto simp add: play_root_fields)
    from tick_root_played [OF assms(3) a(2,3), of "t + n"] obtain b where
      b: "tick_root (t + n) a = Inr b
     \<and> (\<forall>key. sampler_calls b key = sampler_calls a key @
            (if (0.5 + real (voice_index key) * 0.1 < \<bar>step_value vec key n * 25\<bar>
                 \<or> n mod 16 = 0) \<and> ready_root e1 key
             then [ReleaseAll (Some (t + n)), TriggerAttackRelease
                     (computed_note (step_value vec key n) (voice_index key))
                     (durations_root ! voice_index key) (t + n)
                     (Num (spec_velocity (step_value vec key n)))]
             else [])
        \<and> fallback_calls b key = fallback_calls a key @
            (if (0.5 + real (voice_index key) * 0.1 < \<bar>step_value vec key n * 25\<bar>
                 \<or> n mod 16 = 0) \<and> \<not> ready_root e1 key \<and> fallbacks e1 key \<noteq> None
             then [ReleaseAll (Some (t + n)), TriggerAttackRelease
                     (computed_note (step_value vec key n) (voice_index key))
                     (durations_root ! voice_index key) (t + n)
                     (Num (0.5 * spec_velocity (step_value vec key n)))]
             else []))"
      by blast
    have "sampler_calls b key = sampler_calls a key @
                    (if (0.5 + real (voice_index key) * 0.1 < \<bar>step_value vec key n * 25\<bar>
                         \<or> n mod 16 = 0) \<and> outcome key = OnLoad
                     then [ReleaseAll (Some (t + n)), TriggerAttackRelease
                             (computed_note (step_value vec key n) (voice_index key))
                             (durations_root ! voice_index key) (t + n)
                             (Num (spec_velocity (step_value vec key n)))]
                     else [])
                 \<and> fallback_calls b key = fallback_calls a key @
                    (if (0.5 + real (voice_index key) * 0.1 < \<bar>step_value vec key n * 25\<bar>
                         \<or> n mod 16 = 0) \<and> outcome key = OnError
                     then [ReleaseAll (Some (t + n)), TriggerAttackRelease
                             (computed_note (step_value vec key n) (voice_index key))
                             (durations_root ! voice_index key) (t + n)
                             (Num (0.5 * spec_velocity (step_value vec key n)))]
                     else [])" for key
      using b [THEN conjunct2, THEN spec, of key] fn [of key] oe [of key]
      by (simp add: rroot)
    with a(1) b show ?thesis
      by blast
  qed
  show ?thesis
    apply (rule exI [of _ e1])
    apply (intro conjI)
         apply (rule l)
        apply (rule ls)
       apply (rule i1)
      apply (rule allI)
      apply (rule t1)
     apply (rule i2)
    apply (rule allI)
    apply (rule t2)
    done
qed

theorem partial_load_failure_falls_back_witness:
  "(\<forall>key. ((\<lambda>k. OnLoad)(Bass := OnError)) key \<noteq> Pending)
   \<and> (\<forall>key. fallbacks new_engine key \<noteq> None)
   \<and> length (replicate 384 (1::real)) = 384
   \<and> (\<exists>e1 a b. load ((\<lambda>k. OnLoad)(Bass := OnError)) new_engine = Some e1
          \<and> \<not> loadedStates e1 Bass \<and> loadedStates e1 Soprano
          \<and> ticks_svc 0 1 (play_svc (map Num (replicate 384 1)) Start e1) = Inr a
          \<and> tick_svc 1 a = Inr b
          \<and> sampler_calls b Bass = sampler_calls a Bass
          \<and> fallback_calls b Bass = fallback_calls a Bass @
              [TriggerAttackRelease (Pitch ''Bb'' (Num 2)) D2n 1 (Num 0.4)]
          \<and> sampler_calls b Soprano = sampler_calls a Soprano @
              [TriggerAttackRelease (Pitch ''Bb'' (Num 5)) D16n 1 (Num 1)]
          \<and> fallback_calls b Soprano = fallback_calls a Soprano)"
proof -
  let ?o = "((\<lambda>k. OnLoad)(Bass := OnError))"
  have h1: "\<forall>key. ?o key \<noteq> Pending"
    by simp
  have h2: "\<forall>key. fallbacks new_engine key \<noteq> None"
  proof
    fix key show "fallbacks new_engine key \<noteq> None"
      by (cases key) (simp_all add: new_engine_def)
  qed
  have h3: "length (replicate 384 (1::real)) = 384"
    by simp
  from partial_load_failure_falls_back [OF h1 h2 h3, of Start 0]
  obtain e1 where B: "load ?o new_engine = Some e1
     \<and> (\<forall>key. loadedStates e1 key = (?o key = OnLoad))
     \<and> (\<forall>key. sampler_calls (play_svc (map Num (replicate 384 1)) Start e1) key = []
             \<and> fallback_calls (play_svc (map Num (replicate 384 1)) Start e1) key = fallback_calls new_engine key)
     \<and> (\<forall>n. \<exists>a b. ticks_svc 0 n (play_svc (map Num (replicate 384 1)) Start e1) = Inr a
             \<and> tick_svc (0 + n) a = Inr b
             \<and> (\<forall>key. sampler_calls b key = sampler_calls a key @
                    (if (0.4 + real (voice_index key) * 0.1 < \<bar>step_value (replicate 384 1) key n * 25\<bar>
                         \<or> n mod 4 = 0) \<and> ((\<lambda>k. OnLoad)(Bass := OnError)) key = OnLoad
                     then [TriggerAttackRelease
                             (computed_note (step_value (replicate 384 1) key n) (voice_index key))
                             (durations_svc ! voice_index key) (0 + n)
                             (Num (spec_velocity (step_value (replicate 384 1) key n)))]
                     else [])
                 \<and> fallback_calls b key = fallback_calls a key @
                    (if (0.4 + real (voice_index key) * 0.1 < \<bar>step_value (replicate 384 1) key n * 25\<bar>
                         \<or> n mod 4 = 0) \<and> ((\<lambda>k. OnLoad)(Bass := OnError)) key = OnError
                     then [TriggerAttackRelease
                             (computed_note (step_value (replicate 384 1) key n) (voice_index key))
                             (durations_svc ! voice_index key) (0 + n)
                             (Num (0.4 * spec_velocity (step_value (replicate 384 1) key n)))]
                     else [])))
     \<and> (\<forall>key. sampler_calls (play_root (map Num (replicate 384 1)) Start e1) key = [ReleaseAll None]
             \<and> fallback_calls (play_root (map Num (replicate 384 1)) Start e1) key = fallback_calls new_engine key @ [ReleaseAll None])
     \<and> (\<forall>n. \<exists>a b. ticks_root 0 n (play_root (map Num (replicate 384 1)) Start e1) = Inr a
             \<and> tick_root (0 + n) a = Inr b
             \<and> (\<forall>key. sampler_calls b key = sampler_calls a key @
                    (if (0.5 + real (voice_index key) * 0.1 < \<bar>step_value (replicate 384 1) key n * 25\<bar>
                         \<or> n mod 16 = 0) \<and> ((\<lambda>k. OnLoad)(Bass := OnError)) key = OnLoad
                     then [ReleaseAll (Some (0 + n)), TriggerAttackRelease
                             (computed_note (step_value (replicate 384 1) key n) (voice_index key))
                             (durations_root ! voice_index key) (0 + n)
                             (Num (spec_velocity (step_value (replicate 384 1) key n)))]
                     else [])
                 \<and> fallback_calls b key = fallback_calls a key @
                    (if (0.5 + real (voice_index key) * 0.1 < \<bar>step_value (replicate 384 1) key n * 25\<bar>
                         \<or> n mod 16 = 0) \<and> ((\<lambda>k. OnLoad)(Bass := OnError)) key = OnError
                     then [ReleaseAll (Some (0 + n)), TriggerAttackRelease
                             (computed_note (step_value (replicate 384 1) key n) (voice_index key))
                             (durations_root ! voice_index key) (0 + n)
                             (Num (0.5 * spec_velocity (step_value (replicate 384 1) key n)))]
                     else [])))" ..
  note l = B [THEN conjunct1]
  note s = B [THEN conjunct2, THEN conjunct1]
  note T = B [THEN conjunct2, THEN conjunct2, THEN conjunct2, THEN conjunct1, THEN spec, of 1]
  from T obtain a b where a: "ticks_svc 0 1 (play_svc (map Num (replicate 384 1)) Start e1) = Inr a"
    and b: "tick_svc (0 + 1) a = Inr b"
    and k: "(\<forall>key. sampler_calls b key = sampler_calls a key @
                    (if (0.4 + real (voice_index key) * 0.1 < \<bar>step_value (replicate 384 1) key 1 * 25\<bar>
                         \<or> (1::nat) mod 4 = 0) \<and> ((\<lambda>k. OnLoad)(Bass := OnError)) key = OnLoad
                     then [TriggerAttackRelease
                             (computed_note (step_value (replicate 384 1) key 1) (voice_index key))
                             (durations_svc ! voice_index key) (0 + 1)
                             (Num (spec_velocity (step_value (replicate 384 1) key 1)))]
                     else [])
                 \<and> fallback_calls b key = fallback_calls a key @
                    (if (0.4 + real (voice_index key) * 0.1 < \<bar>step_value (replicate 384 1) key 1 * 25\<bar>
                         \<or> (1::nat) mod 4 = 0) \<and> ((\<lambda>k. OnLoad)(Bass := OnError)) key = OnError
                     then [TriggerAttackRelease
                             (computed_note (step_value (replicate 384 1) key 1) (voice_index key))
                             (durations_svc ! voice_index key) (0 + 1)
                             (Num (0.4 * spec_velocity (step_value (replicate 384 1) key 1)))]
                     else []))"
    by (elim exE conjE)
  have v: "step_value (replicate 384 1) key 1 = 1" for key
    by (cases key) (simp_all add: step_value_def)
  have cn: "computed_scaleDegreeIndex 1 = 6 \<and> computed_octaveShift 1 = 1"
    using computed_unsaturated [of 1] tanh_15_upper spec_at_1 by simp
  have n: "computed_note 1 0 = Pitch ''Bb'' (Num 2)" "computed_note 1 3 = Pitch ''Bb'' (Num 5)"
    by (simp_all add: computed_note_def cn scale_def baseOctaves_def)
  have sv: "spec_velocity 1 = 1"
    by (simp add: spec_velocity_def clamp_def)
  have c1: "sampler_calls b Bass = sampler_calls a Bass"
    "fallback_calls b Bass = fallback_calls a Bass @
              [TriggerAttackRelease (Pitch ''Bb'' (Num 2)) D2n 1 (Num 0.4)]"
    using k [THEN spec, of Bass] unfolding v sv by (simp_all add: n durations_svc_def)
  have c2: "sampler_calls b Soprano = sampler_calls a Soprano @
              [TriggerAttackRelease (Pitch ''Bb'' (Num 5)) D16n 1 (Num 1)]"
    "fallback_calls b Soprano = fallback_calls a Soprano"
    using k [THEN spec, of Soprano] unfolding v sv by (simp_all add: n durations_svc_def)
  have f: "\<not> loadedStates e1 Bass" "loadedStates e1 Soprano"
    using s by simp_all
  have b': "tick_svc 1 a = Inr b"
    using b by simp
  have "\<exists>e1 a b. load ?o new_engine = Some e1
          \<and> \<not> loadedStates e1 Bass \<and> loadedStates e1 Soprano
          \<and> ticks_svc 0 1 (play_svc (map Num (replicate 384 1)) Start e1) = Inr a
          \<and> tick_svc 1 a = Inr b
          \<and> sampler_calls b Bass = sampler_calls a Bass
          \<and> fallback_calls b Bass = fallback_calls a Bass @
              [TriggerAttackRelease (Pitch ''Bb'' (Num 2)) D2n 1 (Num 0.4)]
          \<and> sampler_calls b Soprano = sampler_calls a Soprano @
              [TriggerAttackRelease (Pitch ''Bb'' (Num 5)) D16n 1 (Num 1)]
          \<and> fallback_calls b Soprano = fallback_calls a Soprano"
    apply (rule exI [of _ e1])
    apply (rule exI [of _ a])
    apply (rule exI [of _ b])
    apply (intro conjI)
            apply (rule l)
           apply (rule f(1))
          apply (rule f(2))
         apply (rule a)
        apply (rule b')
       apply (rule c1(1))
      apply (rule c1(2))
     apply (rule c2(1))
    apply (rule c2(2))
    done
  with h1 h2 h3 show ?thesis
    by (intro conjI)
qed


section \<open>Releasing notes\<close>

lemma held_append_ReleaseAll: "held (cs @ [ReleaseAll x]) = []"
  by (simp add: held_def)

lemma held_append_Trigger:
  "held (cs @ [TriggerAttackRelease n d t v]) = held cs @ [TriggerAttackRelease n d t v]"
  by (simp add: held_def)

lemma held_Nil: "held [] = []"
  by (simp add: held_def)

lemma held_release_then_trigger:
  "held (cs @ [ReleaseAll x, TriggerAttackRelease n d t v]) = [TriggerAttackRelease n d t v]"
proof -
  have "cs @ [ReleaseAll x, TriggerAttackRelease n d t v]
          = (cs @ [ReleaseAll x]) @ [TriggerAttackRelease n d t v]"
    by simp
  then show ?thesis
    by (simp only: held_append_Trigger held_append_ReleaseAll append_Nil)
qed

text \<open>
  \<open>stop\<close> in \<open>src/musicEngine.ts\<close> silences both instruments of every voice, from
  any state, also when called twice.
\<close>

lemma stop_root_silences:
  "currentPhase (stop_root e) = Idle \<and> loop (stop_root e) = None
   \<and> \<not> transport_started (stop_root e)
   \<and> held (sampler_calls (stop_root e) key) = []
   \<and> held (fallback_calls (stop_root e) key) = []
   \<and> sounding_at now (sampler_calls (stop_root e) key) = []
   \<and> sounding_at now (fallback_calls (stop_root e) key) = []"
  by (simp add: stop_root_fields calls_stop_root held_append_ReleaseAll held_Nil sounding_at_def)

lemma stop_root_twice_silences:
  "currentPhase (stop_root (stop_root e)) = Idle \<and> loop (stop_root (stop_root e)) = None
   \<and> \<not> transport_started (stop_root (stop_root e))
   \<and> sounding_at now (sampler_calls (stop_root (stop_root e)) key) = []
   \<and> sounding_at now (fallback_calls (stop_root (stop_root e)) key) = []"
  using stop_root_silences [of "stop_root e" key now] by simp

text \<open>
  The callback in \<open>src/musicEngine.ts\<close> keeps each instrument voice-exclusive:
  whatever the vector, the state and the number of ticks after \<open>play\<close>.
\<close>

lemma tick_root_exclusive:
  assumes l: "loop e = Some step" and m4: "length (currentMelodies e) = 4"
    and ne: "[] \<notin> set (currentMelodies e)" and x: "voice_exclusive e"
  shows "\<exists>e'. tick_root t e = Inr e' \<and> loop e' = Some (step + 1)
     \<and> currentMelodies e' = currentMelodies e \<and> voice_exclusive e'"
proof -
  from tick_root_effect [OF l m4 ne, of t] obtain e' where
    *: "tick_root t e = Inr e' \<and> config e' = config e \<and> loop e' = Some (step + 1)
     \<and> (\<forall>v. sampler_calls e' v = sampler_calls e v @
            (if (gate (currentMelodies e ! voice_index v
                        ! (step mod length (currentMelodies e ! voice_index v)))
                 \<or> step mod 16 = 0) \<and> ready_root e v
             then [ReleaseAll (Some t), TriggerAttackRelease
                     (finalNote (currentMelodies e ! voice_index v
                        ! (step mod length (currentMelodies e ! voice_index v))) (voice_index v))
                     (durations_root ! voice_index v) t
                     (velocity (currentMelodies e ! voice_index v
                        ! (step mod length (currentMelodies e ! voice_index v))))]
             else [])
        \<and> fallback_calls e' v = fallback_calls e v @
            (if (gate (currentMelodies e ! voice_index v
                        ! (step mod length (currentMelodies e ! voice_index v)))
                 \<or> step mod 16 = 0) \<and> \<not> ready_root e v \<and> fallbacks e v \<noteq> None
             then [ReleaseAll (Some t), TriggerAttackRelease
                     (finalNote (currentMelodies e ! voice_index v
                        ! (step mod length (currentMelodies e ! voice_index v))) (voice_index v))
                     (durations_root ! voice_index v) t
                     (js_mul (velocity (currentMelodies e ! voice_index v
                        ! (step mod length (currentMelodies e ! voice_index v)))) (Num 0.5))]
             else []))"
    by blast
  from x have x': "length (held (sampler_calls e v)) \<le> 1"
    "length (held (fallback_calls e v)) \<le> 1" for v
    by (simp_all add: voice_exclusive_def)
  have "length (held (sampler_calls e' v)) \<le> 1 \<and> length (held (fallback_calls e' v)) \<le> 1" for v
    using * x' [of v] by (simp add: held_release_then_trigger)
  then have "voice_exclusive e'"
    by (simp add: voice_exclusive_def)
  moreover from * have "currentMelodies e' = currentMelodies e"
    by (simp add: config_def)
  ultimately show ?thesis
    using * by blast
qed

lemma ticks_root_exclusive:
  assumes "loop e = Some step" and "length (currentMelodies e) = 4"
    and "[] \<notin> set (currentMelodies e)" and "voice_exclusive e"
  shows "\<exists>e'. ticks_root t n e = Inr e' \<and> voice_exclusive e'"
  using assms
proof (induction n arbitrary: e step t)
  case 0
  then show ?case by simp
next
  case (Suc n)
  from tick_root_exclusive [OF Suc.prems, of t] obtain e1 where
    e1: "tick_root t e = Inr e1" "loop e1 = Some (step + 1)"
    "currentMelodies e1 = currentMelodies e" "voice_exclusive e1"
    by blast
  from Suc.IH [of e1 "step + 1" "t + 1"] e1 Suc.prems(2,3)
  obtain e' where "ticks_root (t + 1) n e1 = Inr e'" "voice_exclusive e'"
    by auto
  with e1(1) show ?case by simp
qed

lemma play_root_voice_exclusive:
  "\<exists>e'. ticks_root t n (play_root v p e) = Inr e' \<and> voice_exclusive e'"
proof -
  have "voice_exclusive (play_root v p e)"
    by (simp add: voice_exclusive_def sampler_calls_def fallback_calls_def play_root_fields
        stop_root_fields held_append_ReleaseAll held_Nil split: option.split)
  then show ?thesis
    using ticks_root_exclusive [of "play_root v p e" 0 t n] play_root_melodies_ok [of v p e]
    by (simp add: play_root_fields)
qed

lemma slice_replicate: "b \<le> n \<Longrightarrow> slice (replicate n x) a b = replicate (b - a) x"
  by (simp add: slice_def min_def)

lemma note_svc_zeros:
  assumes "0 < n"
  shows "note_svc (replicate n (Num 0)) k i
           = \<lparr>noteIndex = Num 0, octaveShift = Num 0, gate = False, velocity = Num 0.5\<rparr>"
proof -
  have ne: "replicate n (0::real) \<noteq> []"
    using assms by simp
  have i: "i mod n < n"
    using assms by simp
  show ?thesis
    using note_svc_Num [OF ne, of k i] i
    by (simp add: computed_scaleDegreeIndex_def computed_octaveShift_def tanh_double_0)
qed

lemma zero_melodies_svc:
  assumes "i < 4" and "k < 16"
  shows "currentMelodies (play_svc (replicate 384 (Num 0)) p e) ! i ! k
           = \<lparr>noteIndex = Num 0, octaveShift = Num 0, gate = False, velocity = Num 0.5\<rparr>"
proof -
  have m: "getVoiceMelody_svc (replicate 96 (Num 0)) j 16 ! k
             = \<lparr>noteIndex = Num 0, octaveShift = Num 0, gate = False, velocity = Num 0.5\<rparr>" for j
    using assms(2) by (simp add: nth_getVoiceMelody_svc note_svc_zeros)
  from assms(1) have "i = 0 \<or> i = 1 \<or> i = 2 \<or> i = 3"
    by arith
  then show ?thesis
    by (auto simp add: currentMelodies_play_svc slice_replicate m)
qed

lemma finalNote_zero:
  "finalNote \<lparr>noteIndex = Num 0, octaveShift = Num 0, gate = False, velocity = Num 0.5\<rparr> i
     = Pitch ''C'' (Num (baseOctaves ! i))"
  by (simp add: finalNote_def scale_at_def scale_def trunc_def)

lemma tick_svc_zeros:
  assumes c: "config e = config (play_svc (replicate 384 (Num 0)) p new_engine)"
    and l: "loop e = Some step"
  shows "\<exists>e'. tick_svc t e = Inr e'
     \<and> config e' = config (play_svc (replicate 384 (Num 0)) p new_engine)
     \<and> loop e' = Some (step + 1)
     \<and> (\<forall>v. sampler_calls e' v = sampler_calls e v
            \<and> fallback_calls e' v = fallback_calls e v @
                (if step mod 4 = 0
                 then [TriggerAttackRelease (Pitch ''C'' (Num (baseOctaves ! voice_index v)))
                         (durations_svc ! voice_index v) t (Num 0.2)]
                 else []))"
proof -
  let ?Z = "play_svc (replicate 384 (Num 0)) p new_engine"
  have cm: "currentMelodies e = currentMelodies ?Z"
    using c by (simp add: config_def)
  have ok: "length (currentMelodies e) = 4" "[] \<notin> set (currentMelodies e)"
    "\<forall>i<4. length (currentMelodies e ! i) = 16"
    unfolding cm using play_svc_melodies_ok [of "replicate 384 (Num 0)" p new_engine] by simp_all
  have r: "\<not> ready_svc e v" for v
    using config_ready_svc [OF c, of v] by (simp add: ready_svc_def play_svc_fields new_engine_def)
  have f: "fallbacks e v \<noteq> None" for v
    using config_fallback_None [OF c, of v]
    by (cases v) (simp_all add: play_svc_fields new_engine_def)
  have n: "currentMelodies e ! voice_index v ! (step mod length (currentMelodies e ! voice_index v))
      = \<lparr>noteIndex = Num 0, octaveShift = Num 0, gate = False, velocity = Num 0.5\<rparr>" for v
    using ok(3) voice_index_less [of v] unfolding cm
    by (simp add: zero_melodies_svc)
  from tick_svc_effect [OF l ok(1,2), of t] obtain e' where
    *: "tick_svc t e = Inr e' \<and> config e' = config e \<and> loop e' = Some (step + 1)
     \<and> (\<forall>v. sampler_calls e' v = sampler_calls e v @
            (if (gate (currentMelodies e ! voice_index v
                        ! (step mod length (currentMelodies e ! voice_index v)))
                 \<or> step mod 4 = 0) \<and> ready_svc e v
             then [TriggerAttackRelease
                     (finalNote (currentMelodies e ! voice_index v
                        ! (step mod length (currentMelodies e ! voice_index v))) (voice_index v))
                     (durations_svc ! voice_index v) t
                     (velocity (currentMelodies e ! voice_index v
                        ! (step mod length (currentMelodies e ! voice_index v))))]
             else [])
        \<and> fallback_calls e' v = fallback_calls e v @
            (if (gate (currentMelodies e ! voice_index v
                        ! (step mod length (currentMelodies e ! voice_index v)))
                 \<or> step mod 4 = 0) \<and> \<not> ready_svc e v \<and> fallbacks e v \<noteq> None
             then [TriggerAttackRelease
                     (finalNote (currentMelodies e ! voice_index v
                        ! (step mod length (currentMelodies e ! voice_index v))) (voice_index v))
                     (durations_svc ! voice_index v) t
                     (js_mul (velocity (currentMelodies e ! voice_index v
                        ! (step mod length (currentMelodies e ! voice_index v)))) (Num 0.4))]
             else []))"
    by blast
  have "sampler_calls e' v = sampler_calls e v
            \<and> fallback_calls e' v = fallback_calls e v @
                (if step mod 4 = 0
                 then [TriggerAttackRelease (Pitch ''C'' (Num (baseOctaves ! voice_index v)))
                         (durations_svc ! voice_index v) t (Num 0.2)]
                 else [])" for v
    using * [THEN conjunct2, THEN conjunct2, THEN conjunct2, THEN spec, of v] r [of v] f [of v]
    unfolding n finalNote_zero by simp
  then show ?thesis
    using * c by auto
qed

lemma fallback_calls_stop_svc: "fallback_calls (stop_svc e) v = fallback_calls e v"
  by (simp add: fallback_calls_def stop_svc_fields)

lemma calls_play_svc_new:
  "fallback_calls (play_svc v p new_engine) key = []"
  "sampler_calls (play_svc v p new_engine) key = []"
  by (cases key; simp add: fallback_calls_def sampler_calls_def play_svc_fields new_engine_def)+

lemma ticks_svc_step:
  "tick_svc t e = Inr e' \<Longrightarrow> t' = t + 1 \<Longrightarrow> ticks_svc t' n e' = r \<Longrightarrow> ticks_svc t (Suc n) e = r"
  by simp

text \<open>
  C1 in \<open>src/services/musicEngine.ts\<close>: the callback triggers without releasing.
  After \<open>play\<close> of the all-zeros vector on a new engine and the ticks of steps 0 to 4,
  the bass fallback synthesizer has received two \<open>triggerAttackRelease\<close> of a half
  note, at steps 0 and 4, and no \<open>releaseAll\<close>: at step 4 both notes sound.
\<close>

theorem svc_retrigger_overlaps:
  "\<exists>e5. ticks_svc 0 5 (play_svc (replicate 384 (Num 0)) Start new_engine) = Inr e5
     \<and> fallback_calls e5 Bass =
         [TriggerAttackRelease (Pitch ''C'' (Num 1)) D2n 0 (Num 0.2),
          TriggerAttackRelease (Pitch ''C'' (Num 1)) D2n 4 (Num 0.2)]
     \<and> sounding_at 4 (fallback_calls e5 Bass) =
         [TriggerAttackRelease (Pitch ''C'' (Num 1)) D2n 0 (Num 0.2),
          TriggerAttackRelease (Pitch ''C'' (Num 1)) D2n 4 (Num 0.2)]"
proof -
  let ?Z = "play_svc (replicate 384 (Num 0)) Start new_engine"
  have l0: "loop ?Z = Some 0"
    by (simp add: play_svc_fields)
  from tick_svc_zeros [OF refl l0, of 0] obtain e1 where
    e1: "tick_svc 0 ?Z = Inr e1" "config e1 = config ?Z" "loop e1 = Some 1"
    "fallback_calls e1 Bass = [TriggerAttackRelease (Pitch ''C'' (Num 1)) D2n 0 (Num 0.2)]"
    by (auto simp add: calls_play_svc_new baseOctaves_def durations_svc_def)
  from tick_svc_zeros [OF e1(2,3), of 1] obtain e2 where
    e2: "tick_svc 1 e1 = Inr e2" "config e2 = config ?Z" "loop e2 = Some 2"
    "fallback_calls e2 Bass = fallback_calls e1 Bass"
    by auto
  from tick_svc_zeros [OF e2(2,3), of 2] obtain e3 where
    e3: "tick_svc 2 e2 = Inr e3" "config e3 = config ?Z" "loop e3 = Some 3"
    "fallback_calls e3 Bass = fallback_calls e2 Bass"
    by auto
  from tick_svc_zeros [OF e3(2,3), of 3] obtain e4 where
    e4: "tick_svc 3 e3 = Inr e4" "config e4 = config ?Z" "loop e4 = Some 4"
    "fallback_calls e4 Bass = fallback_calls e3 Bass"
    by auto
  from tick_svc_zeros [OF e4(2,3), of 4] obtain e5 where
    e5: "tick_svc 4 e4 = Inr e5"
    "fallback_calls e5 Bass = fallback_calls e4 Bass @
        [TriggerAttackRelease (Pitch ''C'' (Num 1)) D2n 4 (Num 0.2)]"
    by (auto simp add: baseOctaves_def durations_svc_def)
  have c: "fallback_calls e5 Bass =
         [TriggerAttackRelease (Pitch ''C'' (Num 1)) D2n 0 (Num 0.2),
          TriggerAttackRelease (Pitch ''C'' (Num 1)) D2n 4 (Num 0.2)]"
    by (simp add: e5(2) e4(4) e3(4) e2(4) e1(4))
  have s: "sounding_at 4 (fallback_calls e5 Bass) =
         [TriggerAttackRelease (Pitch ''C'' (Num 1)) D2n 0 (Num 0.2),
          TriggerAttackRelease (Pitch ''C'' (Num 1)) D2n 4 (Num 0.2)]"
    unfolding c by (simp add: sounding_at_def held_def)
  have a4: "ticks_svc 4 (Suc 0) e4 = Inr e5"
    by (rule ticks_svc_step [OF e5(1), of 5]) simp_all
  have a3: "ticks_svc 3 (Suc (Suc 0)) e3 = Inr e5"
    by (rule ticks_svc_step [OF e4(1) _ a4]) simp
  have a2: "ticks_svc 2 (Suc (Suc (Suc 0))) e2 = Inr e5"
    by (rule ticks_svc_step [OF e3(1) _ a3]) simp
  have a1: "ticks_svc 1 (Suc (Suc (Suc (Suc 0)))) e1 = Inr e5"
    by (rule ticks_svc_step [OF e2(1) _ a2]) simp
  have a0: "ticks_svc 0 (Suc (Suc (Suc (Suc (Suc 0))))) ?Z = Inr e5"
    by (rule ticks_svc_step [OF e1(1) _ a1]) simp
  have five: "(5::nat) = Suc (Suc (Suc (Suc (Suc 0))))"
    by simp
  have "ticks_svc 0 5 ?Z = Inr e5"
    unfolding five by (rule a0)
  with c s show ?thesis
    by blast
qed

text \<open>
  C5 in \<open>src/services/musicEngine.ts\<close>: \<open>stop\<close> releases no note. After \<open>play\<close>
  of the all-zeros vector on a new engine and the tick of step 0, \<open>stop\<close> leaves the
  engine idle without a loop, and the half note triggered on the bass fallback
  synthesizer at step 0 still sounds, also after a second \<open>stop\<close>.
\<close>

theorem svc_stop_leaves_note_sounding:
  "\<exists>e1. tick_svc 0 (play_svc (replicate 384 (Num 0)) Start new_engine) = Inr e1
     \<and> currentPhase (stop_svc e1) = Idle \<and> loop (stop_svc e1) = None
     \<and> sounding_at 0 (fallback_calls (stop_svc e1) Bass) =
         [TriggerAttackRelease (Pitch ''C'' (Num 1)) D2n 0 (Num 0.2)]
     \<and> sounding_at 1 (fallback_calls (stop_svc (stop_svc e1)) Bass) =
         [TriggerAttackRelease (Pitch ''C'' (Num 1)) D2n 0 (Num 0.2)]"
proof -
  let ?Z = "play_svc (replicate 384 (Num 0)) Start new_engine"
  have l0: "loop ?Z = Some 0"
    by (simp add: play_svc_fields)
  from tick_svc_zeros [OF refl l0, of 0] obtain e1 where
    e1: "tick_svc 0 ?Z = Inr e1"
    "fallback_calls e1 Bass = [TriggerAttackRelease (Pitch ''C'' (Num 1)) D2n 0 (Num 0.2)]"
    by (auto simp add: calls_play_svc_new baseOctaves_def durations_svc_def)
  have "sounding_at 0 (fallback_calls (stop_svc e1) Bass) =
         [TriggerAttackRelease (Pitch ''C'' (Num 1)) D2n 0 (Num 0.2)]"
    "sounding_at 1 (fallback_calls (stop_svc (stop_svc e1)) Bass) =
         [TriggerAttackRelease (Pitch ''C'' (Num 1)) D2n 0 (Num 0.2)]"
    by (simp_all add: fallback_calls_stop_svc e1(2) sounding_at_def held_def)
  then show ?thesis
    using e1(1) by (auto simp add: stop_svc_fields)
qed

end
